theory Spec2Isabelle
  imports Complex_Main "HOL-Library.Word" "HOL-Library.AList"
begin

unbundle bit_operations_syntax

section \<open>The sjcl.prng generator (a Fortuna derivative) as a state machine\<close>

text \<open>
  The generator object of \<^verbatim>\<open>sjcl.prng\<close> is a record of its private fields; every method
  is a function from the state before the call to an outcome and the state after it.
  A JavaScript exception does not undo assignments made before the \<^verbatim>\<open>throw\<close>, so a
  method that throws still returns the state it leaves behind.

  JavaScript numbers that the generator only counts, adds and compares are integers
  here (\<^typ>\<open>int\<close>, \<^typ>\<open>nat\<close> for counters that start at 0 and are only
  incremented by one); values that the source forces to 32 bits with \<^verbatim>\<open>| 0\<close> are
  \<^typ>\<open>32 word\<close>. An entropy estimate is an integer of any size; sums and differences
  of estimates are rounded as the language rounds them (\<open>js_add\<close> and \<open>js_sub\<close> below).
  An estimate that is a fraction, \<^verbatim>\<open>NaN\<close> or not a number is not among the inputs.
\<close>

subsection \<open>Values of the host language\<close>

type_synonym u32 = "32 word"

text \<open>The exceptions the methods throw: \<^verbatim>\<open>sjcl.exception.notReady\<close>,
  \<^verbatim>\<open>sjcl.exception.bug\<close>, and the \<^verbatim>\<open>TypeError\<close> of the language itself (a property
  read from \<^verbatim>\<open>undefined\<close> or \<^verbatim>\<open>null\<close>).\<close>

datatype error = NotReady | Bug | TypeError

datatype 'a outcome = Ok 'a | Throw error

text \<open>What a caller can pass as \<^verbatim>\<open>data\<close> to \<^verbatim>\<open>addEntropy\<close>, by the cases that
  \<^verbatim>\<open>typeof\<close> and \<^verbatim>\<open>Object.prototype.toString\<close> tell apart.\<close>

datatype jsval =
    JNumber int
  | JString string
  | JArray "jsval list"
  | JUint32Array "int list"
  | JNull
  | JObject
  | JUndefined
  | JBoolean bool

text \<open>The result of a division of two numbers, which may leave the finite numbers.\<close>

datatype jsnum = Num rat | NaN | PosInfinity | NegInfinity

text \<open>\<^verbatim>\<open>a / b\<close> where \<^verbatim>\<open>b\<close> may be \<^verbatim>\<open>undefined\<close> (an array read out of range).\<close>

definition js_div :: "int \<Rightarrow> int option \<Rightarrow> jsnum" where
  "js_div a b =
     (case b of
        None \<Rightarrow> NaN
      | Some d \<Rightarrow>
          if d \<noteq> 0 then Num (of_int a / of_int d)
          else if a = 0 then NaN
          else if a > 0 then PosInfinity
          else NegInfinity)"

text \<open>\<^verbatim>\<open>a >= b\<close> and \<^verbatim>\<open>a > b\<close> where \<^verbatim>\<open>b\<close> may be \<^verbatim>\<open>undefined\<close>: a comparison
  with \<^verbatim>\<open>undefined\<close> is false.\<close>

definition js_ge :: "int \<Rightarrow> int option \<Rightarrow> bool" where
  "js_ge a b = (case b of None \<Rightarrow> False | Some d \<Rightarrow> a \<ge> d)"

definition js_gt :: "int \<Rightarrow> int option \<Rightarrow> bool" where
  "js_gt a b = (case b of None \<Rightarrow> False | Some d \<Rightarrow> a > d)"

text \<open>\<^verbatim>\<open>x | 0\<close>: the number as a signed 32-bit integer.\<close>

definition to_int32 :: "int \<Rightarrow> int" where
  "to_int32 x = sint (word_of_int x :: u32)"

text \<open>\<^verbatim>\<open>1 << n\<close>: the shift count is taken modulo 32 and the result is a signed
  32-bit integer, so \<^verbatim>\<open>1 << 31\<close> is negative and \<^verbatim>\<open>1 << 32\<close> is 1.\<close>

definition js_shl1 :: "nat \<Rightarrow> int" where
  "js_shl1 n = sint (push_bit (n mod 32) (1 :: u32))"

text \<open>\<^verbatim>\<open>a & b\<close> as a truth value: both operands as 32-bit integers, true when a common
  bit is set.\<close>

definition js_and_nonzero :: "int \<Rightarrow> int \<Rightarrow> bool" where
  "js_and_nonzero a b = ((word_of_int a :: u32) AND word_of_int b \<noteq> 0)"

text \<open>\<^verbatim>\<open>x >>> 1\<close>: the number as an unsigned 32-bit integer, shifted right by one.\<close>

definition js_ushr1 :: "int \<Rightarrow> int" where
  "js_ushr1 x = uint (drop_bit 1 (word_of_int x :: u32))"

text \<open>
  The entropy counters are numbers of the language, that is, double-precision floats.
  They hold integers here (the estimates are bit counts), and a sum or difference of
  two of them is the exact result rounded to 53 significant bits, ties to even: exact
  up to \<open>2^53\<close>, rounded to a multiple of the unit in the last place beyond.
  \<open>double_ulp 1 m\<close> is that unit for the magnitude \<open>m\<close>: the least power of two \<open>u\<close> with
  \<open>m < 2^53 * u\<close>. (A sum of magnitude \<open>2^1024\<close> or more is \<^verbatim>\<open>Infinity\<close> in the language;
  the statements about sums below keep to magnitudes of at most \<open>2^53\<close>.)
\<close>

function double_ulp :: "int \<Rightarrow> int \<Rightarrow> int" where
  "double_ulp u m = (if u \<le> 0 \<or> m < 2 ^ 53 * u then u else double_ulp (2 * u) m)"
  by pat_completeness auto
termination
  by (relation "measure (\<lambda>(u, m). nat (m + 1 - 2 ^ 53 * u))") auto

declare double_ulp.simps [simp del]

definition round53 :: "int \<Rightarrow> int" where
  "round53 x =
     (let m = \<bar>x\<bar>
      in if m \<le> 2 ^ 53 then x
         else
           (let u = double_ulp 1 m; q = m div u; r = m mod u;
                q' = (if 2 * r > u \<or> (2 * r = u \<and> odd q) then q + 1 else q)
            in sgn x * (q' * u)))"

text \<open>\<^verbatim>\<open>a + b\<close> and \<^verbatim>\<open>a - b\<close> on such numbers.\<close>

definition js_add :: "int \<Rightarrow> int \<Rightarrow> int" where
  "js_add a b = round53 (a + b)"

definition js_sub :: "int \<Rightarrow> int \<Rightarrow> int" where
  "js_sub a b = round53 (a - b)"

subsection \<open>The collaborators outside the generator\<close>

text \<open>
  Modelled from the spec: the streaming SHA-256 accumulator \<^verbatim>\<open>sjcl.hash.sha256\<close> and the
  block cipher \<^verbatim>\<open>sjcl.cipher.aes\<close> are not among the sources. A pool is the sequence of
  updates it has absorbed since it was last emptied; \<^verbatim>\<open>finalize\<close> returns the digest of
  that sequence and leaves a fresh empty accumulator (spec 4.3, step 3); the cipher is
  the key it was created with, and an encryption returns four 32-bit words (spec 4.4).
  The digest and the block encryption are parameters. An update is an array of
  numbers (\<open>Words\<close>), a string (\<open>Text\<close>), or an array whose first entry is not a number
  and whose other entries are these numbers (\<open>ForeignWords\<close>).
\<close>

datatype chunk = Words "int list" | Text string | ForeignWords "int list"

type_synonym pool = "chunk list"

text \<open>A cipher block: the four words \<^verbatim>\<open>g[0], g[1], g[2], g[3]\<close> that an encryption
  returns.\<close>

type_synonym block = "u32 \<times> u32 \<times> u32 \<times> u32"

definition block_words :: "block \<Rightarrow> u32 list" where
  "block_words g = (case g of (g0, g1, g2, g3) \<Rightarrow> [g0, g1, g2, g3])"

text \<open>How \<^verbatim>\<open>startCollectors\<close> can attach to the host: \<^verbatim>\<open>window.addEventListener\<close>,
  \<^verbatim>\<open>document.attachEvent\<close>, or neither.\<close>

datatype host_api = HasAddEventListener | HasAttachEvent | NoEventApi

text \<open>
  \<^verbatim>\<open>_robins\<close> and \<^verbatim>\<open>_collectorIds\<close> are plain objects (\<^verbatim>\<open>{}\<close>), so a read under a name
  that the object does not own is answered by \<^verbatim>\<open>Object.prototype\<close>: \<^verbatim>\<open>undefined\<close> for
  most names; an inherited value (a function) for names such as \<^verbatim>\<open>toString\<close> or
  \<^verbatim>\<open>constructor\<close>, where an assignment then creates an own property; the prototype
  object for \<^verbatim>\<open>__proto__\<close>, where the assignment of a number is ignored. Which names
  are which is the host's.
\<close>

datatype inherited = NotInherited | InheritedValue | ProtoAccessor

text \<open>
  The environment of one call: \<^verbatim>\<open>now\<close> is what \<^verbatim>\<open>(new Date()).valueOf()\<close> returns
  (one reading for the whole synchronous call), \<^verbatim>\<open>platformPRNG k\<close> is what the
  \<open>k\<close>-th call of \<^verbatim>\<open>_platformPRNG\<close> within the call returns, \<open>object_prototype\<close> is
  what \<^verbatim>\<open>Object.prototype\<close> holds under a name.
\<close>

record env =
  now :: int
  platformPRNG :: "nat \<Rightarrow> int"
  sha256 :: "pool \<Rightarrow> u32 list"
  aes_encrypt :: "u32 list \<Rightarrow> u32 list \<Rightarrow> block"
  host :: host_api
  object_prototype :: "string \<Rightarrow> inherited"

subsection \<open>The state\<close>

datatype event_name = Progress | Seeded

text \<open>A callback is known by its identity only (\<^verbatim>\<open>===\<close> on function objects).\<close>

type_synonym callback = nat

text \<open>
  A value read from \<^verbatim>\<open>_robins\<close>: a number that is a pool index, \<^verbatim>\<open>NaN\<close>, or a value
  that is not a number (inherited from \<^verbatim>\<open>Object.prototype\<close>). The values that
  \<^verbatim>\<open>addEntropy\<close> stores are indices and \<^verbatim>\<open>NaN\<close>.
\<close>

datatype slot = Index nat | NotANumber | Foreign

text \<open>A value read from \<^verbatim>\<open>_collectorIds\<close>: an id, or an inherited value.\<close>

datatype ident = Id nat | ForeignId

text \<open>
  The fields of \<^verbatim>\<open>sjcl.prng\<close>, with the names of the source without the underscore.
  \<^verbatim>\<open>_callbacks[name]\<close> is an object with integer keys: an association list with
  distinct keys. \<open>gateCalls\<close> is not a field of the source: it counts the calls of
  \<^verbatim>\<open>_gate\<close> and no method reads it.
\<close>

record prng =
  pools :: "pool list"
  poolEntropy :: "int list"
  reseedCount :: nat
  robins :: "string \<rightharpoonup> slot"
  eventId :: nat
  collectorIds :: "string \<rightharpoonup> nat"
  collectorIdNext :: nat
  strength :: int
  poolStrength :: int
  nextReseed :: int
  key :: "u32 list"
  counter :: "u32 list"
  cipher :: "u32 list option"
  defaultParanoia :: int
  collectorsStarted :: bool
  callbacks :: "event_name \<Rightarrow> (nat \<times> callback) list"
  callbackI :: nat
  gateCalls :: nat

definition NOT_READY :: nat where "NOT_READY = 0"
definition READY :: nat where "READY = 1"
definition REQUIRES_RESEED :: nat where "REQUIRES_RESEED = 2"

definition MAX_WORDS_PER_BURST :: nat where "MAX_WORDS_PER_BURST = 65536"
definition PARANOIA_LEVELS :: "int list" where
  "PARANOIA_LEVELS = [0, 48, 64, 96, 128, 192, 256, 384, 512, 768, 1024]"
definition MILLISECONDS_PER_RESEED :: int where "MILLISECONDS_PER_RESEED = 30000"
definition BITS_PER_RESEED :: int where "BITS_PER_RESEED = 80"

text \<open>
  The field initialisers of the constructor (lines 47-67); \<^verbatim>\<open>paranoia || 6\<close> takes 6
  for an omitted argument and for 0. The constructor then calls \<^verbatim>\<open>init\<close>, which works
  on this state through the public methods only: \<^verbatim>\<open>startCollectors\<close>, and \<^verbatim>\<open>addEntropy\<close>
  for 48 platform random words of one bit each and for the strings of the host.
\<close>

definition prng_new :: "int option \<Rightarrow> prng" where
  "prng_new paranoia =
     \<lparr> pools = [[]],
       poolEntropy = [0],
       reseedCount = 0,
       robins = Map.empty,
       eventId = 0,
       collectorIds = Map.empty,
       collectorIdNext = 0,
       strength = 0,
       poolStrength = 0,
       nextReseed = 0,
       key = [0, 0, 0, 0, 0, 0, 0, 0],
       counter = [0, 0, 0, 0],
       cipher = None,
       defaultParanoia = (case paranoia of None \<Rightarrow> 6 | Some p \<Rightarrow> if p = 0 then 6 else p),
       collectorsStarted = False,
       callbacks = (\<lambda>_. []),
       callbackI = 0,
       gateCalls = 0 \<rparr>"

subsection \<open>Readiness\<close>

text \<open>\<^verbatim>\<open>this._PARANOIA_LEVELS[i]\<close>: \<^verbatim>\<open>undefined\<close> outside the table.\<close>

definition paranoia_level :: "int \<Rightarrow> int option" where
  "paranoia_level i =
     (if 0 \<le> i \<and> i < int (length PARANOIA_LEVELS) then Some (PARANOIA_LEVELS ! nat i)
      else None)"

text \<open>\<^verbatim>\<open>this._poolEntropy[0] > this._BITS_PER_RESEED\<close>, false on an empty array.\<close>

definition pool0_over :: "int list \<Rightarrow> bool" where
  "pool0_over pe = (case pe of [] \<Rightarrow> False | b # _ \<Rightarrow> b > BITS_PER_RESEED)"

text \<open>\<^verbatim>\<open>isReady\<close> (lines 274-286). The first test is \<^verbatim>\<open>this._strength && ...\<close>: a
  strength of 0 is falsy.\<close>

definition isReady :: "env \<Rightarrow> int option \<Rightarrow> prng \<Rightarrow> nat" where
  "isReady e paranoia s =
     (let entropyRequired =
            paranoia_level (case paranoia of Some p \<Rightarrow> p | None \<Rightarrow> defaultParanoia s)
      in if strength s \<noteq> 0 \<and> js_ge (strength s) entropyRequired then
           (if pool0_over (poolEntropy s) \<and> now e > nextReseed s
            then REQUIRES_RESEED OR READY
            else READY)
         else
           (if js_ge (poolStrength s) entropyRequired
            then REQUIRES_RESEED OR NOT_READY
            else NOT_READY))"

text \<open>\<^verbatim>\<open>getProgress\<close> (lines 289-299). The index is
  \<^verbatim>\<open>paranoia ? paranoia : this._defaultParanoia\<close>: an argument of 0 is falsy.\<close>

definition getProgress :: "int option \<Rightarrow> prng \<Rightarrow> jsnum" where
  "getProgress paranoia s =
     (let entropyRequired =
            paranoia_level
              (case paranoia of
                 Some p \<Rightarrow> if p \<noteq> 0 then p else defaultParanoia s
               | None \<Rightarrow> defaultParanoia s)
      in if js_ge (strength s) entropyRequired then Num 1
         else if js_gt (poolStrength s) entropyRequired then Num 1
         else js_div (poolStrength s) entropyRequired)"

subsection \<open>Listeners\<close>

text \<open>\<^verbatim>\<open>addEventListener\<close> (lines 389-391):
  \<^verbatim>\<open>this._callbacks[name][this._callbackI++] = callback\<close>.\<close>

definition addEventListener :: "event_name \<Rightarrow> callback \<Rightarrow> prng \<Rightarrow> prng" where
  "addEventListener name cb s =
     s\<lparr>callbacks := (callbacks s)(name := AList.update (callbackI s) cb (callbacks s name)),
       callbackI := callbackI s + 1\<rparr>"

text \<open>The first loop of \<^verbatim>\<open>removeEventListener\<close> (lines 401-405): the keys \<open>j\<close> with
  \<^verbatim>\<open>cbs[j] === cb\<close>, pushed onto \<^verbatim>\<open>jsTemp\<close>.\<close>

fun collect_keys :: "callback \<Rightarrow> (nat \<times> callback) list \<Rightarrow> nat list \<Rightarrow> nat list" where
  "collect_keys cb [] jsTemp = jsTemp"
| "collect_keys cb ((j, c) # cbs) jsTemp =
     collect_keys cb cbs (if c = cb then jsTemp @ [j] else jsTemp)"

text \<open>The second loop (lines 407-410): \<^verbatim>\<open>delete cbs[j]\<close> for each collected key.\<close>

fun delete_keys :: "nat list \<Rightarrow> (nat \<times> callback) list \<Rightarrow> (nat \<times> callback) list" where
  "delete_keys [] cbs = cbs"
| "delete_keys (j # js) cbs = delete_keys js (AList.delete j cbs)"

text \<open>\<^verbatim>\<open>removeEventListener\<close> (lines 394-411).\<close>

definition removeEventListener :: "event_name \<Rightarrow> callback \<Rightarrow> prng \<Rightarrow> prng" where
  "removeEventListener name cb s =
     (let cbs = callbacks s name;
          jsTemp = collect_keys cb cbs []
      in s\<lparr>callbacks := (callbacks s)(name := delete_keys jsTemp cbs)\<rparr>)"

text \<open>\<^verbatim>\<open>_fireEvent\<close> (lines 505-522): the callbacks registered under the name are copied
  and called one after the other with the argument. A call of a callback is recorded
  as a notification; what the callback does is outside the generator.\<close>

type_synonym notification = "event_name \<times> callback \<times> jsnum"

definition fireEvent :: "event_name \<Rightarrow> jsnum \<Rightarrow> prng \<Rightarrow> notification list" where
  "fireEvent name arg s = map (\<lambda>(j, cb). (name, cb, arg)) (callbacks s name)"

subsection \<open>Adding entropy\<close>

text \<open>The inner loop of the entropy estimator (lines 231-234):
  \<^verbatim>\<open>while (tmp>0) { estimatedEntropy++; tmp = tmp >>> 1; }\<close>.\<close>

lemma js_ushr1_eq: "js_ushr1 x = (x mod 2 ^ 32) div 2"
  unfolding js_ushr1_def
  by (simp add: drop_bit_eq_div uint_div uint_word_of_int)

lemma js_ushr1_less: "0 < x \<Longrightarrow> js_ushr1 x < x"
proof -
  assume pos: "0 < x"
  have "x mod 2 ^ 32 \<le> x"
    using pos by (simp add: zmod_le_nonneg_dividend)
  then show ?thesis using pos unfolding js_ushr1_eq by linarith
qed

function estimate_word :: "int \<Rightarrow> int \<Rightarrow> int" where
  "estimate_word tmp est =
     (if tmp > 0 then estimate_word (js_ushr1 tmp) (est + 1) else est)"
  by pat_completeness auto
termination
  by (relation "measure (\<lambda>(tmp, est). nat tmp)") (auto simp: js_ushr1_less)

declare estimate_word.simps [simp del]

text \<open>The outer loop (lines 229-235) over the elements of the array.\<close>

fun estimate_array :: "int list \<Rightarrow> int \<Rightarrow> int" where
  "estimate_array [] est = est"
| "estimate_array (v # vs) est = estimate_array vs (estimate_word v est)"

text \<open>The check of lines 219-223: every element of the array is a number. The result
  is the array's numbers, or nothing when \<^verbatim>\<open>err\<close> is set.\<close>

fun array_numbers :: "jsval list \<Rightarrow> int list option" where
  "array_numbers [] = Some []"
| "array_numbers (JNumber v # xs) = map_option ((#) v) (array_numbers xs)"
| "array_numbers (_ # xs) = None"

text \<open>\<^verbatim>\<open>this._robins[source]\<close> and \<^verbatim>\<open>this._collectorIds[source]\<close> as reads; no result is
  \<^verbatim>\<open>undefined\<close>.\<close>

definition read_robin :: "env \<Rightarrow> prng \<Rightarrow> string \<Rightarrow> slot option" where
  "read_robin e s source =
     (case robins s source of
        Some v \<Rightarrow> Some v
      | None \<Rightarrow>
          (case object_prototype e source of
             NotInherited \<Rightarrow> None
           | InheritedValue \<Rightarrow> Some Foreign
           | ProtoAccessor \<Rightarrow> Some Foreign))"

definition read_id :: "env \<Rightarrow> prng \<Rightarrow> string \<Rightarrow> ident option" where
  "read_id e s source =
     (case collectorIds s source of
        Some i \<Rightarrow> Some (Id i)
      | None \<Rightarrow>
          (case object_prototype e source of
             NotInherited \<Rightarrow> None
           | InheritedValue \<Rightarrow> Some ForeignId
           | ProtoAccessor \<Rightarrow> Some ForeignId))"

text \<open>\<^verbatim>\<open>this._robins[source] = v\<close>: ignored where the name is \<^verbatim>\<open>__proto__\<close> and not an
  own property.\<close>

definition write_robin :: "env \<Rightarrow> string \<Rightarrow> slot \<Rightarrow> prng \<Rightarrow> prng" where
  "write_robin e source v s =
     (if robins s source = None \<and> object_prototype e source = ProtoAccessor then s
      else s\<lparr>robins := (robins s)(source \<mapsto> v)\<rparr>)"

text \<open>\<^verbatim>\<open>(x + 1) % this._pools.length\<close>: \<^verbatim>\<open>NaN\<close> where \<open>x\<close> is not a number (the sum is
  then a string or \<^verbatim>\<open>NaN\<close>) and where there is no pool.\<close>

definition next_robin :: "slot \<Rightarrow> nat \<Rightarrow> slot" where
  "next_robin v len =
     (case v of
        Index n \<Rightarrow> if len = 0 then NotANumber else Index ((n + 1) mod len)
      | NotANumber \<Rightarrow> NotANumber
      | Foreign \<Rightarrow> NotANumber)"

text \<open>\<^verbatim>\<open>this._pools[robin]\<close>: the index of the pool, where there is one.\<close>

definition pool_index :: "slot \<Rightarrow> prng \<Rightarrow> nat option" where
  "pool_index robin s =
     (case robin of
        Index n \<Rightarrow> if n < length (pools s) then Some n else None
      | NotANumber \<Rightarrow> None
      | Foreign \<Rightarrow> None)"

text \<open>The array \<^verbatim>\<open>[id, ...]\<close> that a pool is updated with.\<close>

definition header :: "ident \<Rightarrow> int list \<Rightarrow> chunk" where
  "header ident rest =
     (case ident of Id i \<Rightarrow> Words (int i # rest) | ForeignId \<Rightarrow> ForeignWords rest)"

text \<open>\<^verbatim>\<open>this._pools[n].update(x)\<close> on the pool with index \<open>n\<close>.\<close>

definition pool_update :: "nat \<Rightarrow> chunk \<Rightarrow> prng \<Rightarrow> prng" where
  "pool_update n x s = s\<lparr>pools := (pools s)[n := pools s ! n @ [x]]\<rparr>"

text \<open>The array branch after the checks (lines 225-238), on the array's numbers.
  \<^verbatim>\<open>this._pools[robin].update\<close> is a \<^verbatim>\<open>TypeError\<close> where \<^verbatim>\<open>this._pools[robin]\<close> is
  \<^verbatim>\<open>undefined\<close>, raised before the arguments of the call are evaluated. The result is
  the estimate and the index of the pool that was updated.\<close>

definition absorb_words ::
  "int list \<Rightarrow> int option \<Rightarrow> ident \<Rightarrow> int \<Rightarrow> int \<Rightarrow> slot \<Rightarrow> prng
     \<Rightarrow> (int \<times> nat) outcome \<times> prng" where
  "absorb_words ws estimatedEntropy ident t r robin s =
     (let est = (case estimatedEntropy of None \<Rightarrow> estimate_array ws 0 | Some b \<Rightarrow> b)
      in case pool_index robin s of
           Some n \<Rightarrow>
             (Ok (est, n),
              (pool_update n
                 (header ident ([int (eventId s), 2, est, t, r, int (length ws)] @ ws)) s)
                \<lparr>eventId := eventId s + 1\<rparr>)
         | None \<Rightarrow> (Throw TypeError, s))"

text \<open>
  The \<^verbatim>\<open>switch (typeof(data))\<close> of \<^verbatim>\<open>addEntropy\<close> with the \<^verbatim>\<open>throw\<close> that follows it
  (lines 198-258). The result is the value of \<^verbatim>\<open>estimatedEntropy\<close> after the switch
  and the index of the pool that was updated. \<^verbatim>\<open>typeof null\<close> is \<^verbatim>\<open>"object"\<close>, and the
  loop condition \<^verbatim>\<open>i<data.length\<close> reads a property of \<^verbatim>\<open>null\<close>. The length of a string
  is the number of its characters.
\<close>

definition absorb ::
  "jsval \<Rightarrow> int option \<Rightarrow> ident \<Rightarrow> int \<Rightarrow> int \<Rightarrow> slot \<Rightarrow> prng
     \<Rightarrow> (int \<times> nat) outcome \<times> prng" where
  "absorb data estimatedEntropy ident t r robin s =
     (case data of
        JNumber d \<Rightarrow>
          (let est = (case estimatedEntropy of None \<Rightarrow> 1 | Some b \<Rightarrow> b)
           in case pool_index robin s of
                Some n \<Rightarrow>
                  (Ok (est, n),
                   (pool_update n
                      (header ident [int (eventId s), 1, est, t, r, 1, to_int32 d]) s)
                     \<lparr>eventId := eventId s + 1\<rparr>)
              | None \<Rightarrow> (Throw TypeError, s))
      | JUint32Array ws \<Rightarrow> absorb_words ws estimatedEntropy ident t r robin s
      | JArray xs \<Rightarrow>
          (case array_numbers xs of
             None \<Rightarrow> (Throw Bug, s)
           | Some ws \<Rightarrow> absorb_words ws estimatedEntropy ident t r robin s)
      | JNull \<Rightarrow> (Throw TypeError, s)
      | JObject \<Rightarrow> (Throw Bug, s)
      | JString str \<Rightarrow>
          (let est = (case estimatedEntropy of None \<Rightarrow> int (length str) | Some b \<Rightarrow> b)
           in case pool_index robin s of
                Some n \<Rightarrow>
                  (Ok (est, n),
                   pool_update n (Text str)
                     ((pool_update n
                         (header ident [int (eventId s), 3, est, t, r, int (length str)]) s)
                        \<lparr>eventId := eventId s + 1\<rparr>))
              | None \<Rightarrow> (Throw TypeError, s))
      | JUndefined \<Rightarrow> (Throw Bug, s)
      | JBoolean b \<Rightarrow> (Throw Bug, s))"

text \<open>
  \<^verbatim>\<open>addEntropy\<close> (lines 182-271). \<^verbatim>\<open>source || "user"\<close> takes the default for an omitted
  tag and for the empty string. The source id and the round-robin index are assigned
  before the switch looks at the data: an id is allocated, and the index set to 0,
  only where the read gives \<^verbatim>\<open>undefined\<close>. The index of the count that line 261 adds
  to is that of the pool that was updated, so it is within the pools; the counts are
  as many as the pools in every state that the constructor and the methods produce.
  The result of a call that returns is the list of notifications it sent.
\<close>

definition addEntropy ::
  "env \<Rightarrow> jsval \<Rightarrow> int option \<Rightarrow> string option \<Rightarrow> prng \<Rightarrow> notification list outcome \<times> prng"
  where
  "addEntropy e data estimatedEntropy source0 s =
     (let source = (case source0 of None \<Rightarrow> ''user'' | Some x \<Rightarrow> if x = [] then ''user'' else x);
          t = now e;
          r = platformPRNG e 0;
          robin0 = read_robin e s source;
          oldReady = isReady e None s;
          ident = (case read_id e s source of Some i \<Rightarrow> i | None \<Rightarrow> Id (collectorIdNext s));
          s1 = (case read_id e s source of
                  Some i \<Rightarrow> s
                | None \<Rightarrow> s\<lparr>collectorIds := (collectorIds s)(source \<mapsto> collectorIdNext s),
                            collectorIdNext := collectorIdNext s + 1\<rparr>);
          robin = (case robin0 of Some v \<Rightarrow> v | None \<Rightarrow> Index 0);
          s1' = (case robin0 of
                   Some v \<Rightarrow> s1
                 | None \<Rightarrow> s1\<lparr>robins := (robins s1)(source \<mapsto> Index 0)\<rparr>);
          s2 = write_robin e source (next_robin robin (length (pools s1'))) s1'
      in case absorb data estimatedEntropy ident t r robin s2 of
           (Throw x, s3) \<Rightarrow> (Throw x, s3)
         | (Ok (est, n), s3) \<Rightarrow>
             (let s4 = s3\<lparr>poolEntropy :=
                            (poolEntropy s3)[n := js_add (poolEntropy s3 ! n) est],
                          poolStrength := js_add (poolStrength s3) est\<rparr>
              in (Ok (if oldReady = NOT_READY then
                        (if isReady e None s4 \<noteq> NOT_READY
                         then fireEvent Seeded
                                (Num (of_int (max (strength s4) (poolStrength s4)))) s4
                         else [])
                        @ fireEvent Progress (getProgress None s4) s4
                      else []),
                  s4)))"


subsection \<open>The remaining public methods\<close>




subsection \<open>The output stage\<close>

text \<open>
  The counter increment that \<^verbatim>\<open>_gen4words\<close> and \<^verbatim>\<open>_reseed\<close> share (lines 418-421 and
  440-443): \<^verbatim>\<open>for (i=0; i<4; i++) { c[i] = c[i]+1 | 0; if (c[i]) break; }\<close>. The loop
  starts at index 0, so it never skips a position: where the array is shorter than 4,
  \<^verbatim>\<open>undefined+1 | 0\<close> stores 0 at its end and the loop goes on.
\<close>

function inc_counter :: "nat \<Rightarrow> u32 list \<Rightarrow> u32 list" where
  "inc_counter i c =
     (if i < 4 then
        (if i < length c then
           (let v = c ! i + 1; c' = c[i := v]
            in if v \<noteq> 0 then c' else inc_counter (i + 1) c')
         else inc_counter (i + 1) (c @ [0]))
      else c)"
  by pat_completeness auto
termination
  by (relation "measure (\<lambda>(i, c). 4 - i)") auto

declare inc_counter.simps [simp del]

text \<open>\<^verbatim>\<open>_gen4words\<close> (lines 416-423). \<^verbatim>\<open>this._cipher.encrypt\<close> is a \<^verbatim>\<open>TypeError\<close> while
  the cipher is \<^verbatim>\<open>undefined\<close>; the counter has been incremented by then.\<close>

definition gen4words :: "env \<Rightarrow> prng \<Rightarrow> block outcome \<times> prng" where
  "gen4words e s =
     (let s' = s\<lparr>counter := inc_counter 0 (counter s)\<rparr>
      in case cipher s' of
           None \<Rightarrow> (Throw TypeError, s')
         | Some k \<Rightarrow> (Ok (aes_encrypt e k (counter s')), s'))"

text \<open>\<^verbatim>\<open>_gate\<close> (lines 428-431).\<close>

definition gate :: "env \<Rightarrow> prng \<Rightarrow> unit outcome \<times> prng" where
  "gate e s =
     (let s0 = s\<lparr>gateCalls := gateCalls s + 1\<rparr>
      in case gen4words e s0 of
           (Throw x, s1) \<Rightarrow> (Throw x, s1)
         | (Ok a, s1) \<Rightarrow>
             (case gen4words e s1 of
                (Throw x, s2) \<Rightarrow> (Throw x, s2)
              | (Ok b, s2) \<Rightarrow>
                  (let k = block_words a @ block_words b
                   in (Ok (), s2\<lparr>key := k, cipher := Some k\<rparr>))))"

subsection \<open>Reseeding\<close>

text \<open>\<^verbatim>\<open>_reseed\<close> (lines 436-444): the new key is the digest of the old key followed by
  the seed words.\<close>

definition reseed :: "env \<Rightarrow> int list \<Rightarrow> prng \<Rightarrow> prng" where
  "reseed e seedWords s =
     (let k = sha256 e [Words (map sint (key s) @ seedWords)]
      in s\<lparr>key := k, cipher := Some k, counter := inc_counter 0 (counter s)\<rparr>)"

text \<open>
  The loop over the pools in \<^verbatim>\<open>_reseedFromPools\<close> (lines 462-468), on the local variables
  \<^verbatim>\<open>reseedData\<close> and \<^verbatim>\<open>strength\<close> and the state. The \<^verbatim>\<open>break\<close> comes after pool \<open>i\<close> has
  been finalized and its entropy count cleared. \<^verbatim>\<open>_pools\<close> and \<^verbatim>\<open>_poolEntropy\<close> have the
  same length in every state the constructor and the methods produce.
\<close>

function reseed_pools_loop ::
  "env \<Rightarrow> bool \<Rightarrow> nat \<Rightarrow> int list \<Rightarrow> int \<Rightarrow> prng \<Rightarrow> int list \<times> int \<times> prng" where
  "reseed_pools_loop e full i reseedData str s =
     (if i < length (pools s) then
        (let reseedData' = reseedData @ map sint (sha256 e (pools s ! i));
             str' = js_add str (poolEntropy s ! i);
             s' = s\<lparr>pools := (pools s)[i := []], poolEntropy := (poolEntropy s)[i := 0]\<rparr>
         in if \<not> full \<and> js_and_nonzero (int (reseedCount s')) (js_shl1 i)
            then (reseedData', str', s')
            else reseed_pools_loop e full (i + 1) reseedData' str' s')
      else (reseedData, str, s))"
  by pat_completeness auto
termination
  by (relation "measure (\<lambda>(e, full, i, reseedData, str, s). length (pools s) - i)") auto

declare reseed_pools_loop.simps [simp del]

text \<open>\<^verbatim>\<open>_reseedFromPools\<close> (lines 449-484).\<close>

definition reseedFromPools :: "env \<Rightarrow> bool \<Rightarrow> prng \<Rightarrow> prng" where
  "reseedFromPools e full s =
     (let t = now e + MILLISECONDS_PER_RESEED;
          s1 = s\<lparr>nextReseed := t\<rparr>;
          reseedData = t # map (platformPRNG e) [0..<16]
      in case reseed_pools_loop e full 0 reseedData 0 s1 of
           (reseedData', str, s2) \<Rightarrow>
             (let s3 = (if int (reseedCount s2) \<ge> js_shl1 (length (pools s2))
                        then s2\<lparr>pools := pools s2 @ [[]],
                                poolEntropy := poolEntropy s2 @ [0]\<rparr>
                        else s2);
                  s4 = s3\<lparr>poolStrength := js_sub (poolStrength s3) str\<rparr>;
                  s5 = (if str > strength s4 then s4\<lparr>strength := str\<rparr> else s4);
                  s6 = s5\<lparr>reseedCount := reseedCount s5 + 1\<rparr>
              in reseed e reseedData' s6))"

subsection \<open>\<^verbatim>\<open>randomWords\<close>\<close>

text \<open>The generation loop (lines 159-166): \<^verbatim>\<open>for (i=0; i<nwords; i+= 4)\<close>.\<close>

function randomWords_loop ::
  "env \<Rightarrow> nat \<Rightarrow> nat \<Rightarrow> u32 list \<Rightarrow> prng \<Rightarrow> u32 list outcome \<times> prng" where
  "randomWords_loop e nwords i out s =
     (if i < nwords then
        (case (if (i + 1) mod MAX_WORDS_PER_BURST = 0 then gate e s else (Ok (), s)) of
           (Throw x, s1) \<Rightarrow> (Throw x, s1)
         | (Ok _, s1) \<Rightarrow>
             (case gen4words e s1 of
                (Throw x, s2) \<Rightarrow> (Throw x, s2)
              | (Ok g, s2) \<Rightarrow> randomWords_loop e nwords (i + 4) (out @ block_words g) s2))
      else (Ok out, s))"
  by pat_completeness auto
termination
  by (relation "measure (\<lambda>(e, nwords, i, out, s). nwords - i)") auto

declare randomWords_loop.simps [simp del]

text \<open>\<^verbatim>\<open>randomWords\<close> (lines 150-170).\<close>

definition randomWords ::
  "env \<Rightarrow> nat \<Rightarrow> int option \<Rightarrow> prng \<Rightarrow> u32 list outcome \<times> prng" where
  "randomWords e nwords paranoia s =
     (let readiness = isReady e paranoia s
      in if readiness = NOT_READY then (Throw NotReady, s)
         else
           (let s1 = (if readiness AND REQUIRES_RESEED \<noteq> 0
                      then reseedFromPools e (readiness AND READY = 0) s
                      else s)
            in case randomWords_loop e nwords 0 [] s1 of
                 (Throw x, s2) \<Rightarrow> (Throw x, s2)
               | (Ok out, s2) \<Rightarrow>
                   (case gate e s2 of
                      (Throw x, s3) \<Rightarrow> (Throw x, s3)
                    | (Ok _, s3) \<Rightarrow> (Ok (take nwords out), s3))))"

subsection \<open>Sequences of calls\<close>





text \<open>A sequence of reseeds, each with its environment and its \<^verbatim>\<open>full\<close> flag.\<close>

fun reseeds :: "(env \<times> bool) list \<Rightarrow> prng \<Rightarrow> prng" where
  "reseeds [] s = s"
| "reseeds ((e, full) # rs) s = reseeds rs (reseedFromPools e full s)"

text \<open>
  A concrete environment for evaluating the methods on examples. Its digest and its
  cipher are stand-ins with the shapes of the real ones (eight words, four words), its
  \<^verbatim>\<open>Object.prototype\<close> is the standard one; the general theorems below hold for every
  environment.
\<close>

definition example_env :: env where
  "example_env =
     \<lparr> now = 1000,
       platformPRNG = (\<lambda>k. int k),
       sha256 = (\<lambda>p. let w = word_of_nat (length p) in [w, w, w, w, w, w, w, w]),
       aes_encrypt = (\<lambda>k c. (sum_list k, sum_list c, 2, 3)),
       host = HasAddEventListener,
       object_prototype =
         (\<lambda>name. if name = ''__proto__'' then ProtoAccessor
                  else if name \<in> set [''constructor'', ''toString'', ''toLocaleString'',
                            ''valueOf'', ''hasOwnProperty'', ''isPrototypeOf'',
                            ''propertyIsEnumerable'', ''__defineGetter__'',
                            ''__defineSetter__'', ''__lookupGetter__'',
                            ''__lookupSetter__'']
                  then InheritedValue
                  else NotInherited) \<rparr>"

text \<open>A generator that has collected 300 bits in its first pool and has not been
  reseeded yet: a new generator after \<^verbatim>\<open>addEntropy("seed", 300, "test")\<close>.\<close>

definition seeded_example :: prng where
  "seeded_example =
     snd (addEntropy example_env (JString ''seed'') (Some 300) (Some ''test'') (prng_new None))"

text \<open>
  The growth rule of the pool bank on its own (lines 471-474 and 482): the number of
  pools after \<open>n\<close> more reseeds of a generator with reseed count \<open>rc\<close> and \<open>len\<close> pools.
\<close>

fun pool_count_after :: "nat \<Rightarrow> nat \<Rightarrow> nat \<Rightarrow> nat" where
  "pool_count_after 0 rc len = len"
| "pool_count_after (Suc n) rc len =
     pool_count_after n (rc + 1) (if int rc \<ge> js_shl1 len then len + 1 else len)"





text \<open>
  Data of none of the three shapes that \<^verbatim>\<open>addEntropy\<close> supports (a number, an array of
  numbers, a string): an array with an element that is not a number, \<^verbatim>\<open>null\<close>, another
  object, \<^verbatim>\<open>undefined\<close>, a boolean.
\<close>

fun unsupported :: "jsval \<Rightarrow> bool" where
  "unsupported (JNumber v) = False"
| "unsupported (JString str) = False"
| "unsupported (JUint32Array ws) = False"
| "unsupported (JArray xs) = list_ex (\<lambda>x. case x of JNumber v \<Rightarrow> False | _ \<Rightarrow> True) xs"
| "unsupported JNull = True"
| "unsupported JObject = True"
| "unsupported JUndefined = True"
| "unsupported (JBoolean b) = True"

section \<open>Readiness\<close>

lemmas readiness_defs = NOT_READY_def READY_def REQUIRES_RESEED_def

lemma paranoia_level_in:
  "0 \<le> p \<Longrightarrow> p \<le> 10 \<Longrightarrow> paranoia_level p = Some (PARANOIA_LEVELS ! nat p)"
  by (simp add: paranoia_level_def PARANOIA_LEVELS_def)

lemma paranoia_level_out: "p < 0 \<or> 10 < p \<Longrightarrow> paranoia_level p = None"
  by (auto simp: paranoia_level_def PARANOIA_LEVELS_def)

text \<open>
  Claim C4, as the code has it. For a paranoia level \<open>p\<close> in \<open>[0, 10]\<close> with
  \<open>need = PARANOIA_LEVELS[p]\<close>, \<^verbatim>\<open>isReady(p)\<close> returns \<open>READY\<close> or
  \<open>REQUIRES_RESEED | READY\<close> when the working strength is not 0 and is at least \<open>need\<close>
  (\<open>REQUIRES_RESEED | READY\<close> exactly when the first pool holds more than
  \<open>BITS_PER_RESEED\<close> bits and the clock is past \<open>nextReseed\<close>); otherwise it returns
  \<open>REQUIRES_RESEED | NOT_READY\<close> when the pool strength is at least \<open>need\<close>, and
  \<open>NOT_READY\<close> when it is not. A working strength of 0 is never ready, also for
  \<open>need = 0\<close>.
\<close>

theorem isReady_by_strength:
  assumes "0 \<le> p" and "p \<le> 10"
  shows "isReady e (Some p) s =
     (if strength s \<noteq> 0 \<and> strength s \<ge> PARANOIA_LEVELS ! nat p then
        (if poolEntropy s \<noteq> [] \<and> hd (poolEntropy s) > BITS_PER_RESEED
              \<and> now e > nextReseed s
         then REQUIRES_RESEED OR READY
         else READY)
      else if poolStrength s \<ge> PARANOIA_LEVELS ! nat p then REQUIRES_RESEED OR NOT_READY
      else NOT_READY)"
  using assms
  by (cases "poolEntropy s")
    (simp_all add: isReady_def paranoia_level_in js_ge_def pool0_over_def)

theorem isReady_by_strength_witness:
  "(0::int) \<le> 0 \<and> (0::int) \<le> 10 \<and>
   isReady example_env (Some 0) (prng_new None) = REQUIRES_RESEED OR NOT_READY"
  using isReady_by_strength [of 0 example_env "prng_new None"]
  by (simp add: prng_new_def PARANOIA_LEVELS_def)

text \<open>
  Claim C4 as stated fails on a new generator asked at paranoia level 0: its working
  strength 0 is at least the required 0 bits, and the answer is neither \<open>READY\<close> nor
  \<open>REQUIRES_RESEED | READY\<close>.
\<close>

theorem isReady_zero_strength_counterexample:
  "strength (prng_new None) \<ge> PARANOIA_LEVELS ! 0 \<and>
   isReady example_env (Some 0) (prng_new None) \<noteq> READY \<and>
   isReady example_env (Some 0) (prng_new None) \<noteq> REQUIRES_RESEED OR READY"
  by (simp add: isReady_def paranoia_level_def PARANOIA_LEVELS_def js_ge_def prng_new_def
      readiness_defs)

text \<open>
  Claim C9. For a paranoia index outside \<open>[0, 10]\<close>, \<^verbatim>\<open>isReady\<close> returns \<open>NOT_READY\<close>
  (it is a function of the state and has no other effect), and \<^verbatim>\<open>randomWords\<close> throws
  \<^verbatim>\<open>notReady\<close> and leaves the state as it was.
\<close>

theorem paranoia_out_of_range:
  "p < 0 \<or> 10 < p \<Longrightarrow>
     isReady e (Some p) s = NOT_READY \<and> randomWords e n (Some p) s = (Throw NotReady, s)"
  by (simp add: randomWords_def isReady_def paranoia_level_out js_ge_def)

theorem paranoia_out_of_range_witness:
  "((11::int) < 0 \<or> (10::int) < 11) \<and>
   isReady example_env (Some 11) (prng_new None) = NOT_READY \<and>
   randomWords example_env 4 (Some 11) (prng_new None) = (Throw NotReady, prng_new None)"
  using paranoia_out_of_range [of 11 example_env "prng_new None" 4] by simp

text \<open>
  Claim C7 does not hold of the code: \<^verbatim>\<open>getProgress(0)\<close> is \<^verbatim>\<open>getProgress()\<close>, the
  progress towards the default paranoia level, since the argument 0 is falsy. With
  the default level 6 (256 bits) and no reseed yet, the result is 0 while the pools
  are empty and 48/256 once they hold the 48 bits that \<^verbatim>\<open>init\<close> collects, and not 1.
\<close>

theorem getProgress_zero_is_default:
  "getProgress (Some 0) s = getProgress None s \<and>
   getProgress (Some 0) (prng_new None) = Num 0 \<and>
   getProgress (Some 0) ((prng_new None)\<lparr>poolEntropy := [48], poolStrength := 48\<rparr>)
     = Num (3 / 16)"
  by (simp add: getProgress_def prng_new_def paranoia_level_def PARANOIA_LEVELS_def
      js_ge_def js_gt_def js_div_def)

section \<open>The examples\<close>

lemma seeded_example_eq:
  "seeded_example =
     (prng_new None)
       \<lparr>pools := [[Words [0, 0, 3, 300, 1000, 0, 4], Text ''seed'']],
        poolEntropy := [300], robins := [''test'' \<mapsto> Index 0], eventId := 1,
        collectorIds := [''test'' \<mapsto> 0], collectorIdNext := 1, poolStrength := 300\<rparr>"
  by (simp add: seeded_example_def addEntropy_def absorb_def pool_update_def prng_new_def
      example_env_def Let_def read_robin_def read_id_def write_robin_def next_robin_def
      pool_index_def header_def js_add_def round53_def)

lemma seeded_example_readiness:
  "isReady example_env None seeded_example = REQUIRES_RESEED OR NOT_READY"
  by (simp add: seeded_example_eq isReady_def prng_new_def paranoia_level_def
      PARANOIA_LEVELS_def js_ge_def readiness_defs)

lemma new_example_readiness: "isReady example_env None (prng_new None) = NOT_READY"
  by (simp add: isReady_def prng_new_def paranoia_level_def PARANOIA_LEVELS_def js_ge_def
      readiness_defs)

lemmas example_eval =
  seeded_example_eq prng_new_def example_env_def Let_def js_add_def js_sub_def round53_def
  reseedFromPools_def reseed_pools_loop.simps reseed_def inc_counter.simps
  js_and_nonzero_def js_shl1_def MILLISECONDS_PER_RESEED_def
  randomWords_loop.simps gen4words_def gate_def block_words_def MAX_WORDS_PER_BURST_def

section \<open>Listeners\<close>

lemma collect_keys_eq:
  "collect_keys cb cbs jsTemp = jsTemp @ map fst (filter (\<lambda>(j, c). c = cb) cbs)"
  by (induction cbs arbitrary: jsTemp) auto

lemma delete_keys_eq:
  "delete_keys js cbs = filter (\<lambda>(j, c). j \<notin> set js) cbs"
proof (induction js arbitrary: cbs)
  case Nil
  then show ?case by simp
next
  case (Cons j js)
  have "filter (\<lambda>(k, c). k \<notin> set js) (AList.delete j cbs) =
        filter (\<lambda>(k, c). k \<notin> set (j # js)) cbs"
    by (induction cbs) (auto simp: AList.delete_eq)
  with Cons show ?case by simp
qed

lemma remove_keys_filter:
  assumes "distinct (map fst cbs)"
  shows "delete_keys (collect_keys cb cbs []) cbs = filter (\<lambda>(j, c). c \<noteq> cb) cbs"
proof -
  have "\<And>j c. (j, c) \<in> set cbs \<Longrightarrow>
          (j \<notin> fst ` {x \<in> set cbs. snd x = cb}) = (c \<noteq> cb)"
  proof -
    fix j c assume in_cbs: "(j, c) \<in> set cbs"
    show "(j \<notin> fst ` {x \<in> set cbs. snd x = cb}) = (c \<noteq> cb)"
    proof
      assume "j \<notin> fst ` {x \<in> set cbs. snd x = cb}"
      with in_cbs show "c \<noteq> cb" by force
    next
      assume neq: "c \<noteq> cb"
      show "j \<notin> fst ` {x \<in> set cbs. snd x = cb}"
      proof
        assume "j \<in> fst ` {x \<in> set cbs. snd x = cb}"
        then obtain c' where "(j, c') \<in> set cbs" and "c' = cb" by auto
        with assms in_cbs have "c' = c" by (meson eq_key_imp_eq_value)
        with neq \<open>c' = cb\<close> show False by simp
      qed
    qed
  qed
  then have "filter (\<lambda>(j, c). j \<notin> fst ` {x \<in> set cbs. snd x = cb}) cbs =
             filter (\<lambda>(j, c). c \<noteq> cb) cbs"
    by (intro filter_cong) auto
  moreover have "set (collect_keys cb cbs []) = fst ` {x \<in> set cbs. snd x = cb}"
    by (auto simp: collect_keys_eq image_iff)
  ultimately show ?thesis by (simp add: delete_keys_eq)
qed

text \<open>The keys of a callback table stay distinct: a registration takes the next value
  of \<^verbatim>\<open>_callbackI\<close> or overwrites the entry under it, a removal only deletes.\<close>

lemma addEventListener_distinct:
  "distinct (map fst (callbacks s name')) \<Longrightarrow>
     distinct (map fst (callbacks (addEventListener name cb s) name'))"
  by (auto simp: addEventListener_def intro: AList.distinct_update)

lemma removeEventListener_distinct:
  "distinct (map fst (callbacks s name')) \<Longrightarrow>
     distinct (map fst (callbacks (removeEventListener name cb s) name'))"
  by (auto simp: removeEventListener_def Let_def delete_keys_eq intro: distinct_map_filter)

text \<open>
  Claim C10. \<^verbatim>\<open>removeEventListener(name, f)\<close> leaves under \<open>name\<close> exactly the
  registrations whose callback is not \<open>f\<close>, in their order: every registration of \<open>f\<close>
  is gone after one call, however often \<open>f\<close> was registered, and every registration
  of another callback stays under its key. The registrations under the other event
  name are untouched. The keys of \<^verbatim>\<open>_callbacks[name]\<close> are the property names of an
  object, hence distinct.
\<close>

theorem removeEventListener_removes_all:
  "distinct (map fst (callbacks s name)) \<Longrightarrow>
     callbacks (removeEventListener name cb s) name =
       filter (\<lambda>(j, c). c \<noteq> cb) (callbacks s name) \<and>
     cb \<notin> snd ` set (callbacks (removeEventListener name cb s) name) \<and>
     (\<forall>j c. c \<noteq> cb \<longrightarrow>
        ((j, c) \<in> set (callbacks (removeEventListener name cb s) name)) =
        ((j, c) \<in> set (callbacks s name))) \<and>
     (\<forall>other. other \<noteq> name \<longrightarrow>
        callbacks (removeEventListener name cb s) other = callbacks s other)"
  by (auto simp: removeEventListener_def remove_keys_filter)

theorem removeEventListener_removes_all_witness:
  "distinct (map fst (callbacks
      (addEventListener Seeded 9 (addEventListener Seeded 7
        (addEventListener Seeded 7 (prng_new None)))) Seeded)) \<and>
   callbacks
      (addEventListener Seeded 9 (addEventListener Seeded 7
        (addEventListener Seeded 7 (prng_new None)))) Seeded = [(0, 7), (1, 7), (2, 9)] \<and>
   callbacks (removeEventListener Seeded 7
      (addEventListener Seeded 9 (addEventListener Seeded 7
        (addEventListener Seeded 7 (prng_new None))))) Seeded = [(2, 9)]"
  using removeEventListener_removes_all [of
      "addEventListener Seeded 9 (addEventListener Seeded 7
        (addEventListener Seeded 7 (prng_new None)))" Seeded 7]
  by (simp add: addEventListener_def prng_new_def)

section \<open>The output stage\<close>

lemma gen4words_Some:
  "cipher s = Some k \<Longrightarrow>
     gen4words e s =
       (Ok (aes_encrypt e k (inc_counter 0 (counter s))),
        s\<lparr>counter := inc_counter 0 (counter s)\<rparr>)"
  by (simp add: gen4words_def Let_def)

lemma gen4words_None:
  "cipher s = None \<Longrightarrow>
     gen4words e s = (Throw TypeError, s\<lparr>counter := inc_counter 0 (counter s)\<rparr>)"
  by (simp add: gen4words_def Let_def)

lemma gate_Some:
  assumes "cipher s = Some k"
  shows "gate e s =
           (let c1 = inc_counter 0 (counter s); c2 = inc_counter 0 c1;
                k' = block_words (aes_encrypt e k c1) @ block_words (aes_encrypt e k c2)
            in (Ok (), s\<lparr>gateCalls := gateCalls s + 1, counter := c2, key := k',
                          cipher := Some k'\<rparr>))"
  using assms by (simp add: gate_def Let_def gen4words_Some)

lemma gate_None:
  assumes "cipher s = None"
  shows "gate e s =
           (Throw TypeError,
            s\<lparr>gateCalls := gateCalls s + 1, counter := inc_counter 0 (counter s)\<rparr>)"
  using assms by (simp add: gate_def Let_def gen4words_None)

lemma gate_state:
  "\<exists>c k ci. snd (gate e s) =
      s\<lparr>gateCalls := gateCalls s + 1, counter := c, key := k, cipher := ci\<rparr>"
proof (cases "cipher s")
  case None
  then have "snd (gate e s) =
      s\<lparr>gateCalls := gateCalls s + 1, counter := inc_counter 0 (counter s),
        key := key s, cipher := cipher s\<rparr>"
    by (simp add: gate_None)
  then show ?thesis by blast
next
  case (Some k)
  then show ?thesis
    by (simp only: gate_Some [OF Some] Let_def snd_conv) blast
qed

lemma burst_test_never:
  assumes "i mod 4 = 0"
  shows "(i + 1) mod MAX_WORDS_PER_BURST \<noteq> 0"
proof
  assume zero: "(i + 1) mod MAX_WORDS_PER_BURST = 0"
  have "(4::nat) dvd 65536" by simp
  then have "(i + 1) mod 65536 mod 4 = (i + 1) mod 4"
    by (rule mod_mod_cancel)
  with zero have "(i + 1) mod 4 = 0"
    by (simp add: MAX_WORDS_PER_BURST_def)
  moreover have "(i + 1) mod 4 = 1"
    using assms by (simp add: mod_Suc)
  ultimately show False by simp
qed

lemma randomWords_loop_no_gate:
  "i mod 4 = 0 \<Longrightarrow>
     \<exists>c. snd (randomWords_loop e n i out s) = s\<lparr>counter := c\<rparr>"
proof (induction e n i out s rule: randomWords_loop.induct)
  case (1 e nwords i out s)
  show ?case
  proof (cases "i < nwords")
    case False
    then have "snd (randomWords_loop e nwords i out s) = s\<lparr>counter := counter s\<rparr>"
      by (simp add: randomWords_loop.simps [of e nwords i out s])
    then show ?thesis by blast
  next
    case True
    note nogate = burst_test_never [OF "1.prems"]
    show ?thesis
    proof (cases "cipher s")
      case None
      then have "snd (randomWords_loop e nwords i out s) =
                   s\<lparr>counter := inc_counter 0 (counter s)\<rparr>"
        using True nogate
        by (simp add: randomWords_loop.simps [of e nwords i out s] gen4words_None)
      then show ?thesis by blast
    next
      case (Some k)
      let ?s2 = "s\<lparr>counter := inc_counter 0 (counter s)\<rparr>"
      let ?g = "aes_encrypt e k (inc_counter 0 (counter s))"
      have step: "randomWords_loop e nwords i out s =
                    randomWords_loop e nwords (i + 4) (out @ block_words ?g) ?s2"
        using True nogate Some
        by (simp add: randomWords_loop.simps [of e nwords i out s] gen4words_Some)
      have "(i + 4) mod 4 = 0" using "1.prems" by simp
      from "1.IH" [OF True _ _ _ _ this, of "Ok ()" s "()" "Ok ?g" ?s2 ?g]
      obtain c where "snd (randomWords_loop e nwords (i + 4) (out @ block_words ?g) ?s2) =
                        ?s2\<lparr>counter := c\<rparr>"
        using nogate Some by (auto simp: gen4words_Some)
      with step have "snd (randomWords_loop e nwords i out s) = s\<lparr>counter := c\<rparr>" by simp
      then show ?thesis by blast
    qed
  qed
qed

section \<open>Reseeding\<close>

lemma js_shl1_small:
  assumes "n < 31"
  shows "js_shl1 n = 2 ^ n"
proof -
  have n32: "n mod 32 = n" using assms by simp
  have "(2::int) ^ n < 2 ^ 31"
    by (rule power_strict_increasing) (use assms in simp_all)
  then have lt: "(2::int) ^ n < 2147483648" by simp
  have "(push_bit n 1 :: u32) = word_of_int (2 ^ n)"
    by (simp add: push_bit_eq_mult)
  then have "uint (push_bit n (1 :: u32)) = 2 ^ n mod 2 ^ 32"
    by (simp only: uint_word_of_int) simp
  also have "\<dots> = 2 ^ n"
    using lt by simp
  finally have u: "uint (push_bit n (1 :: u32)) = 2 ^ n" .
  have "sint (push_bit n (1 :: u32)) = signed_take_bit 31 (uint (push_bit n (1 :: u32)))"
    by (simp add: sint_uint)
  also have "\<dots> = 2 ^ n"
  proof -
    have "- (2 ^ 31) \<le> (0::int)" by simp
    also have "(0::int) \<le> 2 ^ n" by simp
    finally have "- (2 ^ 31) \<le> (2::int) ^ n" .
    moreover have "(2::int) ^ n < 2 ^ 31" using lt by simp
    ultimately show ?thesis
      unfolding u by (rule signed_take_bit_int_eq_self)
  qed
  finally show ?thesis by (simp add: js_shl1_def n32)
qed

lemma js_reseed_bit: "js_and_nonzero (int rc) (js_shl1 i) = bit rc (i mod 32)"
proof -
  have lt: "i mod 32 < 32" by simp
  have "word_of_int (js_shl1 i) = (2 ^ (i mod 32) :: u32)"
    by (simp add: js_shl1_def push_bit_eq_mult)
  then have "js_and_nonzero (int rc) (js_shl1 i) = bit (word_of_nat rc :: u32) (i mod 32)"
    by (simp add: js_and_nonzero_def and_exp_eq_0_iff_not_bit)
  also have "\<dots> = bit rc (i mod 32)"
    using lt by (simp add: bit_of_nat_iff)
  finally show ?thesis .
qed

lemma reseed_pools_loop_stop:
  "\<not> i < length (pools s) \<Longrightarrow> reseed_pools_loop e full i data str s = (data, str, s)"
  by (subst reseed_pools_loop.simps) simp

lemma reseed_pools_loop_break:
  "i < length (pools s) \<Longrightarrow> \<not> full \<Longrightarrow> bit (reseedCount s) (i mod 32) \<Longrightarrow>
     reseed_pools_loop e full i data str s =
       (data @ map sint (sha256 e (pools s ! i)), js_add str (poolEntropy s ! i),
        s\<lparr>pools := (pools s)[i := []], poolEntropy := (poolEntropy s)[i := 0]\<rparr>)"
  by (subst reseed_pools_loop.simps) (simp add: Let_def js_reseed_bit)

lemma reseed_pools_loop_continue:
  "i < length (pools s) \<Longrightarrow> full \<or> \<not> bit (reseedCount s) (i mod 32) \<Longrightarrow>
     reseed_pools_loop e full i data str s =
       reseed_pools_loop e full (i + 1) (data @ map sint (sha256 e (pools s ! i)))
         (js_add str (poolEntropy s ! i))
         (s\<lparr>pools := (pools s)[i := []], poolEntropy := (poolEntropy s)[i := 0]\<rparr>)"
  by (subst reseed_pools_loop.simps) (auto simp add: Let_def js_reseed_bit)

lemma all_from_split:
  assumes "i < m"
  shows "(\<forall>j. i \<le> j \<and> j < m \<longrightarrow> P j) = (P i \<and> (\<forall>j. Suc i \<le> j \<and> j < m \<longrightarrow> P j))"
proof
  assume all: "\<forall>j. i \<le> j \<and> j < m \<longrightarrow> P j"
  from all assms have "P i" by simp
  moreover have "\<forall>j. Suc i \<le> j \<and> j < m \<longrightarrow> P j"
    using all by (simp add: Suc_le_eq less_imp_le)
  ultimately show "P i \<and> (\<forall>j. Suc i \<le> j \<and> j < m \<longrightarrow> P j)" ..
next
  assume rhs: "P i \<and> (\<forall>j. Suc i \<le> j \<and> j < m \<longrightarrow> P j)"
  show "\<forall>j. i \<le> j \<and> j < m \<longrightarrow> P j"
  proof (intro allI impI)
    fix j assume j: "i \<le> j \<and> j < m"
    show "P j"
    proof (cases "j = i")
      case True with rhs show ?thesis by simp
    next
      case False
      with j have "Suc i \<le> j \<and> j < m" by simp
      with rhs show ?thesis by blast
    qed
  qed
qed

lemma reseed_pools_loop_char:
  assumes "length (poolEntropy s) = length (pools s)" and "i \<le> length (pools s)"
  shows "\<exists>k. i + k \<le> length (pools s) \<and>
     reseed_pools_loop e full i data str s =
       (data @ concat (map (\<lambda>p. map sint (sha256 e p)) (take k (drop i (pools s)))),
        foldl js_add str (take k (drop i (poolEntropy s))),
        s\<lparr>pools := take i (pools s) @ replicate k [] @ drop (i + k) (pools s),
          poolEntropy := take i (poolEntropy s) @ replicate k 0 @ drop (i + k) (poolEntropy s)\<rparr>) \<and>
     (\<forall>m. i \<le> m \<and> m < length (pools s) \<longrightarrow>
        (m < i + k) = (full \<or> (\<forall>j. i \<le> j \<and> j < m \<longrightarrow> \<not> bit (reseedCount s) (j mod 32))))"
  using assms
proof (induction e full i data str s rule: reseed_pools_loop.induct)
  case (1 e full i reseedData str s)
  let ?ps = "pools s" and ?pe = "poolEntropy s"
  show ?case
  proof (cases "i < length ?ps")
    case False
    with "1.prems" have "i = length ?ps" by simp
    have "reseed_pools_loop e full i reseedData str s =
         (reseedData @ concat (map (\<lambda>p. map sint (sha256 e p)) (take 0 (drop i ?ps))),
          foldl js_add str (take 0 (drop i ?pe)),
          s\<lparr>pools := take i ?ps @ replicate 0 [] @ drop (i + 0) ?ps,
            poolEntropy := take i ?pe @ replicate 0 0 @ drop (i + 0) ?pe\<rparr>)"
      using False by (simp add: reseed_pools_loop_stop)
    moreover have "\<forall>m. i \<le> m \<and> m < length ?ps \<longrightarrow>
        (m < i + 0) = (full \<or> (\<forall>j. i \<le> j \<and> j < m \<longrightarrow> \<not> bit (reseedCount s) (j mod 32)))"
    proof (intro allI impI)
      fix m assume "i \<le> m \<and> m < length ?ps"
      with \<open>i = length ?ps\<close> have False by simp
      then show "(m < i + 0) =
        (full \<or> (\<forall>j. i \<le> j \<and> j < m \<longrightarrow> \<not> bit (reseedCount s) (j mod 32)))" ..
    qed
    moreover have "i + 0 \<le> length ?ps" using \<open>i = length ?ps\<close> by simp
    ultimately show ?thesis by blast
  next
    case True
    let ?s1 = "s\<lparr>pools := ?ps[i := []], poolEntropy := ?pe[i := 0]\<rparr>"
    let ?d1 = "reseedData @ map sint (sha256 e (?ps ! i))"
    let ?str1 = "js_add str (?pe ! i)"
    have ipe: "i < length ?pe" using True "1.prems" by simp
    show ?thesis
    proof (cases "\<not> full \<and> bit (reseedCount s) (i mod 32)")
      case True
      note brk = this
      have "\<forall>m. i \<le> m \<and> m < length ?ps \<longrightarrow>
              (m < i + 1) = (full \<or> (\<forall>j. i \<le> j \<and> j < m \<longrightarrow> \<not> bit (reseedCount s) (j mod 32)))"
      proof (intro allI impI)
        fix m assume m: "i \<le> m \<and> m < length ?ps"
        show "(m < i + 1) = (full \<or> (\<forall>j. i \<le> j \<and> j < m \<longrightarrow> \<not> bit (reseedCount s) (j mod 32)))"
        proof (cases "m = i")
          case True then show ?thesis by auto
        next
          case False
          with m have "i < m" by simp
          with brk show ?thesis by auto
        qed
      qed
      moreover have "reseed_pools_loop e full i reseedData str s =
         (reseedData @ concat (map (\<lambda>p. map sint (sha256 e p)) (take 1 (drop i ?ps))),
          foldl js_add str (take 1 (drop i ?pe)),
          s\<lparr>pools := take i ?ps @ replicate 1 [] @ drop (i + 1) ?ps,
            poolEntropy := take i ?pe @ replicate 1 0 @ drop (i + 1) ?pe\<rparr>)"
        using brk \<open>i < length ?ps\<close> ipe
        by (simp add: reseed_pools_loop_break upd_conv_take_nth_drop
            Cons_nth_drop_Suc [symmetric] take_Suc_conv_app_nth)
      moreover have "i + 1 \<le> length ?ps" using \<open>i < length ?ps\<close> by simp
      ultimately show ?thesis by blast
    next
      case False
      then have cont: "full \<or> \<not> bit (reseedCount s) (i mod 32)" by blast
      have nobreak: "\<not> (\<not> full \<and> js_and_nonzero (int (reseedCount ?s1)) (js_shl1 i))"
        using cont by (simp add: js_reseed_bit)
      have len1: "length (poolEntropy ?s1) = length (pools ?s1)" using "1.prems" by simp
      have i1: "i + 1 \<le> length (pools ?s1)" using True by simp
      from "1.IH" [OF True refl refl refl nobreak len1 i1]
      obtain k where K:
        "i + 1 + k \<le> length (pools ?s1) \<and>
         reseed_pools_loop e full (i + 1) ?d1 ?str1 ?s1 =
          (?d1 @ concat (map (\<lambda>p. map sint (sha256 e p)) (take k (drop (i + 1) (pools ?s1)))),
           foldl js_add ?str1 (take k (drop (i + 1) (poolEntropy ?s1))),
           ?s1\<lparr>pools := take (i + 1) (pools ?s1) @ replicate k [] @ drop (i + 1 + k) (pools ?s1),
             poolEntropy := take (i + 1) (poolEntropy ?s1) @ replicate k 0
                 @ drop (i + 1 + k) (poolEntropy ?s1)\<rparr>) \<and>
         (\<forall>m. i + 1 \<le> m \<and> m < length (pools ?s1) \<longrightarrow>
           (m < i + 1 + k) =
           (full \<or> (\<forall>j. i + 1 \<le> j \<and> j < m \<longrightarrow> \<not> bit (reseedCount ?s1) (j mod 32))))" ..
      note k = K [THEN conjunct1]
      note res = K [THEN conjunct2, THEN conjunct1]
      note part = K [THEN conjunct2, THEN conjunct2]
      have "reseed_pools_loop e full i reseedData str s =
         (reseedData @ concat (map (\<lambda>p. map sint (sha256 e p)) (take (k + 1) (drop i ?ps))),
          foldl js_add str (take (k + 1) (drop i ?pe)),
          s\<lparr>pools := take i ?ps @ replicate (k + 1) [] @ drop (i + (k + 1)) ?ps,
            poolEntropy := take i ?pe @ replicate (k + 1) 0 @ drop (i + (k + 1)) ?pe\<rparr>)"
      proof -
        have A: "take (Suc k) (drop i ?ps) = ?ps ! i # take k (drop (Suc i) ?ps)"
          using True by (simp add: Cons_nth_drop_Suc [symmetric])
        have B: "take (Suc k) (drop i ?pe) = ?pe ! i # take k (drop (Suc i) ?pe)"
          using ipe by (simp add: Cons_nth_drop_Suc [symmetric])
        have C: "take (Suc i) (?ps[i := []]) = take i ?ps @ [[]]"
          using True by (simp add: take_Suc_conv_app_nth)
        have D: "take (Suc i) (?pe[i := 0]) = take i ?pe @ [0]"
          using ipe by (simp add: take_Suc_conv_app_nth)
        show ?thesis
          unfolding reseed_pools_loop_continue [OF True cont] res
          by (simp add: A B C D)
      qed
      moreover have "\<forall>m. i \<le> m \<and> m < length ?ps \<longrightarrow>
              (m < i + (k + 1)) = (full \<or> (\<forall>j. i \<le> j \<and> j < m \<longrightarrow> \<not> bit (reseedCount s) (j mod 32)))"
      proof (intro allI impI)
        fix m assume m: "i \<le> m \<and> m < length ?ps"
        show "(m < i + (k + 1)) = (full \<or> (\<forall>j. i \<le> j \<and> j < m \<longrightarrow> \<not> bit (reseedCount s) (j mod 32)))"
        proof (cases "m = i")
          case True then show ?thesis by auto
        next
          case False
          with m have im: "i + 1 \<le> m \<and> m < length (pools ?s1)" by simp
          from False m have "i < m" by simp
          define Q where "Q = (\<forall>j. Suc i \<le> j \<and> j < m \<longrightarrow> \<not> bit (reseedCount s) (j mod 32))"
          define R where "R = (\<forall>j. i \<le> j \<and> j < m \<longrightarrow> \<not> bit (reseedCount s) (j mod 32))"
          have split: "R = (\<not> bit (reseedCount s) (i mod 32) \<and> Q)"
            unfolding Q_def R_def by (rule all_from_split [OF \<open>i < m\<close>])
          have "(m < i + 1 + k) = (full \<or> Q)"
            using part [rule_format, OF im] by (simp add: Q_def)
          moreover have "(m < i + (k + 1)) = (m < i + 1 + k)" by simp
          ultimately have "(m < i + (k + 1)) = (full \<or> R)"
            using split cont by blast
          then show ?thesis by (simp only: R_def)
        qed
      qed
      moreover have "i + (k + 1) \<le> length ?ps" using k by simp
      ultimately show ?thesis by blast
    qed
  qed
qed

lemma reseedFromPools_char:
  assumes "length (poolEntropy s) = length (pools s)"
  shows "\<exists>k. k \<le> length (pools s) \<and>
     (\<forall>m. m < length (pools s) \<longrightarrow>
        (m < k) = (full \<or> (\<forall>j. j < m \<longrightarrow> \<not> bit (reseedCount s) (j mod 32)))) \<and>
     reseedFromPools e full s =
       (let grow = (int (reseedCount s) \<ge> js_shl1 (length (pools s)));
            str = foldl js_add 0 (take k (poolEntropy s));
            seed = (now e + MILLISECONDS_PER_RESEED) # map (platformPRNG e) [0..<16]
                     @ concat (map (\<lambda>p. map sint (sha256 e p)) (take k (pools s)));
            k' = sha256 e [Words (map sint (key s) @ seed)]
        in s\<lparr>nextReseed := now e + MILLISECONDS_PER_RESEED,
             pools := replicate k [] @ drop k (pools s) @ (if grow then [[]] else []),
             poolEntropy := replicate k 0 @ drop k (poolEntropy s) @ (if grow then [0] else []),
             poolStrength := js_sub (poolStrength s) str,
             strength := (if str > strength s then str else strength s),
             reseedCount := reseedCount s + 1,
             key := k', cipher := Some k',
             counter := inc_counter 0 (counter s)\<rparr>)"
proof -
  let ?t = "now e + MILLISECONDS_PER_RESEED"
  let ?s1 = "s\<lparr>nextReseed := ?t\<rparr>"
  let ?d = "?t # map (platformPRNG e) [0..<16]"
  have len1: "length (poolEntropy ?s1) = length (pools ?s1)" using assms by simp
  have z: "0 \<le> length (pools ?s1)" by simp
  from reseed_pools_loop_char [OF len1 z, of e full ?d 0]
  obtain k where K:
    "0 + k \<le> length (pools ?s1) \<and>
     reseed_pools_loop e full 0 ?d 0 ?s1 =
       (?d @ concat (map (\<lambda>p. map sint (sha256 e p)) (take k (drop 0 (pools ?s1)))),
        foldl js_add 0 (take k (drop 0 (poolEntropy ?s1))),
        ?s1\<lparr>pools := take 0 (pools ?s1) @ replicate k [] @ drop (0 + k) (pools ?s1),
          poolEntropy := take 0 (poolEntropy ?s1) @ replicate k 0
             @ drop (0 + k) (poolEntropy ?s1)\<rparr>) \<and>
     (\<forall>m. 0 \<le> m \<and> m < length (pools ?s1) \<longrightarrow>
        (m < 0 + k) =
        (full \<or> (\<forall>j. 0 \<le> j \<and> j < m \<longrightarrow> \<not> bit (reseedCount ?s1) (j mod 32))))" ..
  have k: "k \<le> length (pools s)" using K [THEN conjunct1] by simp
  have part: "\<forall>m. m < length (pools s) \<longrightarrow>
        (m < k) = (full \<or> (\<forall>j. j < m \<longrightarrow> \<not> bit (reseedCount s) (j mod 32)))"
    using K [THEN conjunct2, THEN conjunct2] by simp
  have res: "reseed_pools_loop e full 0 ?d 0 ?s1 =
       (?d @ concat (map (\<lambda>p. map sint (sha256 e p)) (take k (pools s))),
        foldl js_add 0 (take k (poolEntropy s)),
        ?s1\<lparr>pools := replicate k [] @ drop k (pools s),
          poolEntropy := replicate k 0 @ drop k (poolEntropy s)\<rparr>)"
    using K [THEN conjunct2, THEN conjunct1] by simp
  have lenk: "length (replicate k ([]::pool) @ drop k (pools s)) = length (pools s)"
    using k by simp
  have "reseedFromPools e full s =
       (let grow = (int (reseedCount s) \<ge> js_shl1 (length (pools s)));
            str = foldl js_add 0 (take k (poolEntropy s));
            seed = (now e + MILLISECONDS_PER_RESEED) # map (platformPRNG e) [0..<16]
                     @ concat (map (\<lambda>p. map sint (sha256 e p)) (take k (pools s)));
            k' = sha256 e [Words (map sint (key s) @ seed)]
        in s\<lparr>nextReseed := now e + MILLISECONDS_PER_RESEED,
             pools := replicate k [] @ drop k (pools s) @ (if grow then [[]] else []),
             poolEntropy := replicate k 0 @ drop k (poolEntropy s) @ (if grow then [0] else []),
             poolStrength := js_sub (poolStrength s) str,
             strength := (if str > strength s then str else strength s),
             reseedCount := reseedCount s + 1,
             key := k', cipher := Some k',
             counter := inc_counter 0 (counter s)\<rparr>)"
    unfolding reseedFromPools_def Let_def res
    using k by (simp add: reseed_def Let_def)
  with k part show ?thesis by blast
qed

lemma reseed_pools_loop_frame:
  "\<exists>ps pe. snd (snd (reseed_pools_loop e full i d str s)) = s\<lparr>pools := ps, poolEntropy := pe\<rparr>"
proof (induction e full i d str s rule: reseed_pools_loop.induct)
  case (1 e full i reseedData str s)
  let ?s1 = "s\<lparr>pools := (pools s)[i := []], poolEntropy := (poolEntropy s)[i := 0]\<rparr>"
  let ?d1 = "reseedData @ map sint (sha256 e (pools s ! i))"
  let ?str1 = "js_add str (poolEntropy s ! i)"
  show ?case
  proof (cases "i < length (pools s)")
    case False
    then have "snd (snd (reseed_pools_loop e full i reseedData str s)) =
                 s\<lparr>pools := pools s, poolEntropy := poolEntropy s\<rparr>"
      by (simp add: reseed_pools_loop_stop)
    then show ?thesis by blast
  next
    case True
    show ?thesis
    proof (cases "\<not> full \<and> bit (reseedCount s) (i mod 32)")
      case True
      with \<open>i < length (pools s)\<close>
      have "snd (snd (reseed_pools_loop e full i reseedData str s)) = ?s1"
        by (simp add: reseed_pools_loop_break)
      then show ?thesis by blast
    next
      case False
      then have cont: "full \<or> \<not> bit (reseedCount s) (i mod 32)" by blast
      have nobreak: "\<not> (\<not> full \<and> js_and_nonzero (int (reseedCount ?s1)) (js_shl1 i))"
        using cont by (simp add: js_reseed_bit)
      from "1.IH" [OF True refl refl refl nobreak]
      obtain ps pe where
        "snd (snd (reseed_pools_loop e full (i + 1) ?d1 ?str1 ?s1)) =
           ?s1\<lparr>pools := ps, poolEntropy := pe\<rparr>" by blast
      then have "snd (snd (reseed_pools_loop e full i reseedData str s)) =
           s\<lparr>pools := ps, poolEntropy := pe\<rparr>"
        by (simp add: reseed_pools_loop_continue [OF True cont])
      then show ?thesis by blast
    qed
  qed
qed

lemma reseedFromPools_frame:
  "\<exists>t ps pe pstr st k c.
     reseedFromPools e full s =
       s\<lparr>nextReseed := t, pools := ps, poolEntropy := pe, poolStrength := pstr,
         strength := st, reseedCount := reseedCount s + 1, key := k, cipher := Some k,
         counter := c\<rparr>"
proof -
  let ?t = "now e + MILLISECONDS_PER_RESEED"
  let ?s1 = "s\<lparr>nextReseed := ?t\<rparr>"
  let ?d = "?t # map (platformPRNG e) [0..<16]"
  obtain d' str s2 where loop: "reseed_pools_loop e full 0 ?d 0 ?s1 = (d', str, s2)"
    by (cases "reseed_pools_loop e full 0 ?d 0 ?s1") auto
  from reseed_pools_loop_frame [of e full 0 ?d 0 ?s1] loop
  obtain ps pe where s2: "s2 = ?s1\<lparr>pools := ps, poolEntropy := pe\<rparr>" by auto
  let ?grow = "js_shl1 (length ps) \<le> int (reseedCount s)"
  let ?k = "sha256 e [Words (map sint (key s) @ d')]"
  have "reseedFromPools e full s =
       s\<lparr>nextReseed := ?t,
         pools := (if ?grow then ps @ [[]] else ps),
         poolEntropy := (if ?grow then pe @ [0] else pe),
         poolStrength := js_sub (poolStrength s) str,
         strength := (if str > strength s then str else strength s),
         reseedCount := reseedCount s + 1, key := ?k, cipher := Some ?k,
         counter := inc_counter 0 (counter s)\<rparr>"
    unfolding reseedFromPools_def Let_def loop s2
    by (simp add: reseed_def Let_def)
  then show ?thesis by blast
qed

lemma randomWords_loop_ok:
  assumes "cipher s = Some k" and "i mod 4 = 0"
  shows "\<exists>out' c. randomWords_loop e n i out s = (Ok out', s\<lparr>counter := c\<rparr>) \<and>
           length out + (n - i) \<le> length out'"
  using assms
proof (induction e n i out s rule: randomWords_loop.induct)
  case (1 e nwords i out s)
  show ?case
  proof (cases "i < nwords")
    case False
    then have "randomWords_loop e nwords i out s = (Ok out, s\<lparr>counter := counter s\<rparr>)"
      by (subst randomWords_loop.simps) simp
    moreover have "length out + (nwords - i) \<le> length out" using False by simp
    ultimately show ?thesis by blast
  next
    case True
    note nogate = burst_test_never [OF "1.prems"(2)]
    let ?s2 = "s\<lparr>counter := inc_counter 0 (counter s)\<rparr>"
    let ?g = "aes_encrypt e k (inc_counter 0 (counter s))"
    have step: "randomWords_loop e nwords i out s =
                  randomWords_loop e nwords (i + 4) (out @ block_words ?g) ?s2"
      using True nogate "1.prems"(1)
      by (subst randomWords_loop.simps) (simp add: gen4words_Some)
    have c2: "cipher ?s2 = Some k" using "1.prems"(1) by simp
    have m4: "(i + 4) mod 4 = 0" using "1.prems"(2) by simp
    have ifeq: "(Ok (), s) =
        (if (i + 1) mod MAX_WORDS_PER_BURST = 0 then gate e s else (Ok (), s))"
      using nogate by simp
    have geq: "(Ok ?g, ?s2) = gen4words e s"
      using "1.prems"(1) by (simp add: gen4words_Some)
    from "1.IH" [OF True ifeq refl geq refl c2 m4]
    obtain out' c where
      r: "randomWords_loop e nwords (i + 4) (out @ block_words ?g) ?s2 =
            (Ok out', ?s2\<lparr>counter := c\<rparr>)" and
      l: "length (out @ block_words ?g) + (nwords - (i + 4)) \<le> length out'"
      by blast
    have "length (block_words ?g) = 4"
      by (simp add: block_words_def split: prod.splits)
    with l have "length out + (nwords - i) \<le> length out'" by simp
    moreover have "randomWords_loop e nwords i out s = (Ok out', s\<lparr>counter := c\<rparr>)"
      using step r by simp
    ultimately show ?thesis by blast
  qed
qed

text \<open>
  Claim C3, as the code has it. A reseed finalizes a prefix of the pool bank: there is
  a \<open>k\<close> such that exactly the pools \<open>0, \<dots>, k - 1\<close> are emptied, have their entropy
  count cleared and have their digests appended, in order, to the seed buffer that is
  hashed into the new key. With \<open>full = false\<close>, pool \<open>i\<close> is among them if and only if
  none of the bits \<open>0, \<dots>, i - 1\<close> of \<open>reseedCount\<close> before its increment is set (the bit
  index is taken modulo 32, as by the 32-bit shift); pool 0 always is. With
  \<open>full = true\<close> every pool is.
\<close>

theorem reseed_pool_participation:
  "length (poolEntropy s) = length (pools s) \<Longrightarrow>
   \<exists>k. k \<le> length (pools s) \<and>
     (\<forall>i. i < length (pools s) \<longrightarrow>
        (i < k) = (full \<or> (\<forall>j. j < i \<longrightarrow> \<not> bit (reseedCount s) (j mod 32)))) \<and>
     take (length (pools s)) (pools (reseedFromPools e full s)) =
       replicate k [] @ drop k (pools s) \<and>
     take (length (pools s)) (poolEntropy (reseedFromPools e full s)) =
       replicate k 0 @ drop k (poolEntropy s) \<and>
     key (reseedFromPools e full s) =
       sha256 e [Words (map sint (key s) @
         (now e + MILLISECONDS_PER_RESEED) # map (platformPRNG e) [0..<16] @
         concat (map (\<lambda>p. map sint (sha256 e p)) (take k (pools s))))]"
proof -
  assume I1: "length (poolEntropy s) = length (pools s)"
  from reseedFromPools_char [OF I1, where e = e and full = full]
  obtain k where k: "k \<le> length (pools s)" and
    part: "\<forall>m. m < length (pools s) \<longrightarrow>
        (m < k) = (full \<or> (\<forall>j. j < m \<longrightarrow> \<not> bit (reseedCount s) (j mod 32)))" and
    res: "reseedFromPools e full s =
       (let grow = (int (reseedCount s) \<ge> js_shl1 (length (pools s)));
            str = foldl js_add 0 (take k (poolEntropy s));
            seed = (now e + MILLISECONDS_PER_RESEED) # map (platformPRNG e) [0..<16]
                     @ concat (map (\<lambda>p. map sint (sha256 e p)) (take k (pools s)));
            k' = sha256 e [Words (map sint (key s) @ seed)]
        in s\<lparr>nextReseed := now e + MILLISECONDS_PER_RESEED,
             pools := replicate k [] @ drop k (pools s) @ (if grow then [[]] else []),
             poolEntropy := replicate k 0 @ drop k (poolEntropy s) @ (if grow then [0] else []),
             poolStrength := js_sub (poolStrength s) str,
             strength := (if str > strength s then str else strength s),
             reseedCount := reseedCount s + 1,
             key := k', cipher := Some k',
             counter := inc_counter 0 (counter s)\<rparr>)"
    by blast
  have "take (length (pools s)) (pools (reseedFromPools e full s)) =
       replicate k [] @ drop k (pools s)"
    unfolding res using k by (simp add: Let_def)
  moreover have "take (length (pools s)) (poolEntropy (reseedFromPools e full s)) =
       replicate k 0 @ drop k (poolEntropy s)"
    unfolding res using k I1 by (simp add: Let_def)
  moreover have "key (reseedFromPools e full s) =
       sha256 e [Words (map sint (key s) @
         (now e + MILLISECONDS_PER_RESEED) # map (platformPRNG e) [0..<16] @
         concat (map (\<lambda>p. map sint (sha256 e p)) (take k (pools s))))]"
    unfolding res by (simp add: Let_def)
  ultimately show ?thesis using k part by blast
qed

theorem reseed_pool_participation_witness:
  "length (poolEntropy seeded_example) = length (pools seeded_example) \<and>
   (\<exists>k. k \<le> length (pools seeded_example) \<and>
     (\<forall>i. i < length (pools seeded_example) \<longrightarrow>
        (i < k) = (False \<or> (\<forall>j. j < i \<longrightarrow> \<not> bit (reseedCount seeded_example) (j mod 32)))) \<and>
     take (length (pools seeded_example)) (pools (reseedFromPools example_env False seeded_example)) =
       replicate k [] @ drop k (pools seeded_example))"
proof -
  have I1: "length (poolEntropy seeded_example) = length (pools seeded_example)"
    by (simp add: seeded_example_eq prng_new_def)
  from reseed_pool_participation [OF I1, of False example_env] I1
  show ?thesis by blast
qed

text \<open>
  Claim C3 as stated fails in both directions. With \<open>reseedCount = 0\<close> bit 0 is clear,
  and the reseed drains pool 0 (300 bits and its data before, empty after). With
  \<open>reseedCount = 3\<close> and two pools bit 1 is set, and the reseed stops after pool 0 and
  leaves pool 1 as it was.
\<close>

theorem reseed_pool_participation_counterexample:
  "\<not> bit (reseedCount seeded_example) 0 \<and>
   pools seeded_example = [[Words [0, 0, 3, 300, 1000, 0, 4], Text ''seed'']] \<and>
   poolEntropy seeded_example = [300] \<and>
   pools (reseedFromPools example_env False seeded_example) = [[]] \<and>
   poolEntropy (reseedFromPools example_env False seeded_example) = [0] \<and>
   bit (3::nat) 1 \<and>
   pools (reseedFromPools example_env False
      ((prng_new None)\<lparr>pools := [[Text ''a''], [Text ''b'']], poolEntropy := [1, 2],
         poolStrength := 3, reseedCount := 3\<rparr>)) = [[], [Text ''b'']] \<and>
   poolEntropy (reseedFromPools example_env False
      ((prng_new None)\<lparr>pools := [[Text ''a''], [Text ''b'']], poolEntropy := [1, 2],
         poolStrength := 3, reseedCount := 3\<rparr>)) = [0, 2]"
  by (simp add: example_eval bit_Suc_0_iff)

lemma reseedFromPools_lengths:
  assumes I1: "length (poolEntropy s) = length (pools s)"
  shows "pools (reseedFromPools e full s) =
           take (length (pools s)) (pools (reseedFromPools e full s)) @
             (if int (reseedCount s) \<ge> js_shl1 (length (pools s)) then [[]] else [])"
    and "poolEntropy (reseedFromPools e full s) =
           take (length (pools s)) (poolEntropy (reseedFromPools e full s)) @
             (if int (reseedCount s) \<ge> js_shl1 (length (pools s)) then [0] else [])"
    and "length (pools (reseedFromPools e full s)) =
           (if int (reseedCount s) \<ge> js_shl1 (length (pools s))
            then length (pools s) + 1 else length (pools s))"
    and "length (poolEntropy (reseedFromPools e full s)) =
           length (pools (reseedFromPools e full s))"
    and "reseedCount (reseedFromPools e full s) = reseedCount s + 1"
proof -
  from reseedFromPools_char [OF I1, where e = e and full = full]
  obtain k where k: "k \<le> length (pools s)" and
    res: "reseedFromPools e full s =
       (let grow = (int (reseedCount s) \<ge> js_shl1 (length (pools s)));
            str = foldl js_add 0 (take k (poolEntropy s));
            seed = (now e + MILLISECONDS_PER_RESEED) # map (platformPRNG e) [0..<16]
                     @ concat (map (\<lambda>p. map sint (sha256 e p)) (take k (pools s)));
            k' = sha256 e [Words (map sint (key s) @ seed)]
        in s\<lparr>nextReseed := now e + MILLISECONDS_PER_RESEED,
             pools := replicate k [] @ drop k (pools s) @ (if grow then [[]] else []),
             poolEntropy := replicate k 0 @ drop k (poolEntropy s) @ (if grow then [0] else []),
             poolStrength := js_sub (poolStrength s) str,
             strength := (if str > strength s then str else strength s),
             reseedCount := reseedCount s + 1,
             key := k', cipher := Some k',
             counter := inc_counter 0 (counter s)\<rparr>)"
    by blast
  show "pools (reseedFromPools e full s) =
           take (length (pools s)) (pools (reseedFromPools e full s)) @
             (if int (reseedCount s) \<ge> js_shl1 (length (pools s)) then [[]] else [])"
    unfolding res using k by (simp add: Let_def)
  show "poolEntropy (reseedFromPools e full s) =
           take (length (pools s)) (poolEntropy (reseedFromPools e full s)) @
             (if int (reseedCount s) \<ge> js_shl1 (length (pools s)) then [0] else [])"
    unfolding res using k I1 by (simp add: Let_def)
  show "length (pools (reseedFromPools e full s)) =
           (if int (reseedCount s) \<ge> js_shl1 (length (pools s))
            then length (pools s) + 1 else length (pools s))"
    unfolding res using k by (simp add: Let_def)
  show "length (poolEntropy (reseedFromPools e full s)) =
           length (pools (reseedFromPools e full s))"
    unfolding res using k I1 by (simp add: Let_def)
  show "reseedCount (reseedFromPools e full s) = reseedCount s + 1"
    unfolding res by (simp add: Let_def)
qed

lemma reseeds_pool_count:
  "length (poolEntropy s) = length (pools s) \<Longrightarrow>
     length (pools (reseeds rs s)) =
       pool_count_after (length rs) (reseedCount s) (length (pools s))"
proof (induction rs arbitrary: s)
  case Nil
  then show ?case by simp
next
  case (Cons r rs)
  obtain e full where r: "r = (e, full)" by (cases r)
  let ?s' = "reseedFromPools e full s"
  note L = reseedFromPools_lengths [OF Cons.prems, of e full]
  have I1': "length (poolEntropy ?s') = length (pools ?s')" by (rule L(4))
  from Cons.IH [OF I1'] show ?case
    by (simp add: r L(3) L(5))
qed

lemma pool_count_trace:
  "map (\<lambda>n. pool_count_after n 0 1) [0..<18] =
     [1, 1, 1, 2, 2, 3, 3, 3, 3, 4, 4, 4, 4, 4, 4, 4, 4, 5]"
  by code_simp


lemma new_I1: "length (poolEntropy (prng_new p)) = length (pools (prng_new p))"
  by (simp add: prng_new_def)

lemma single_pool_count:
  assumes "length (poolEntropy s) = length (pools s)"
    and "reseedCount s = 0" and "length (pools s) = 1"
    and "length rs < 18"
  shows "length (pools (reseeds rs s)) =
     [1, 1, 1, 2, 2, 3, 3, 3, 3, 4, 4, 4, 4, 4, 4, 4, 4, 5] ! length rs"
proof -
  have "length (pools (reseeds rs s)) = pool_count_after (length rs) 0 1"
    using reseeds_pool_count [OF assms(1), of rs] assms(2,3) by simp
  also have "\<dots> = map (\<lambda>n. pool_count_after n 0 1) [0..<18] ! length rs"
    using assms(4) by simp
  finally show ?thesis by (simp only: pool_count_trace)
qed

text \<open>
  Claim C5, as the code has it. A reseed appends a new empty pool, with an entropy
  count of 0, exactly when \<open>reseedCount \<ge> (1 << len(pools))\<close> before \<open>reseedCount\<close> is
  incremented, which for fewer than 31 pools is \<open>reseedCount \<ge> 2^len(pools)\<close>. From a
  single pool and a reseed count of 0, the reseeds with \<open>reseedCount\<close> 2, 4, 8 and 16
  before the increment append a pool: there are 4 pools after 16 reseeds and 5 after
  the 17th.
\<close>

theorem pool_growth_rule:
  "length (poolEntropy s) = length (pools s) \<Longrightarrow>
     (let s' = reseedFromPools e full s;
          grow = (js_shl1 (length (pools s)) \<le> int (reseedCount s))
      in length (pools s') = (if grow then length (pools s) + 1 else length (pools s)) \<and>
         length (poolEntropy s') = length (pools s') \<and>
         (grow \<longrightarrow> last (pools s') = [] \<and> last (poolEntropy s') = 0) \<and>
         (length (pools s) < 31 \<longrightarrow> grow = (2 ^ length (pools s) \<le> reseedCount s))) \<and>
     (reseedCount s = 0 \<and> length (pools s) = 1 \<longrightarrow>
        (\<forall>rs. length rs < 18 \<longrightarrow>
           length (pools (reseeds rs s)) =
             [1, 1, 1, 2, 2, 3, 3, 3, 3, 4, 4, 4, 4, 4, 4, 4, 4, 5] ! length rs))"
proof -
  assume I1: "length (poolEntropy s) = length (pools s)"
  let ?s' = "reseedFromPools e full s"
  let ?grow = "js_shl1 (length (pools s)) \<le> int (reseedCount s)"
  note L = reseedFromPools_lengths [OF I1, of e full]
  have a: "length (pools ?s') = (if ?grow then length (pools s) + 1 else length (pools s))"
    by (rule L(3))
  have b: "length (poolEntropy ?s') = length (pools ?s')" by (rule L(4))
  have c: "?grow \<longrightarrow> last (pools ?s') = [] \<and> last (poolEntropy ?s') = 0"
  proof
    assume g: ?grow
    from L(1) g have "pools ?s' = take (length (pools s)) (pools ?s') @ [[]]" by simp
    then have "last (pools ?s') = last (take (length (pools s)) (pools ?s') @ [[]])"
      by simp
    then have p: "last (pools ?s') = []" by (simp only: last_snoc)
    from L(2) g have "poolEntropy ?s' = take (length (pools s)) (poolEntropy ?s') @ [0]"
      by simp
    then have "last (poolEntropy ?s') =
        last (take (length (pools s)) (poolEntropy ?s') @ [0])" by simp
    then have "last (poolEntropy ?s') = 0" by (simp only: last_snoc)
    with p show "last (pools ?s') = [] \<and> last (poolEntropy ?s') = 0" ..
  qed
  have d: "length (pools s) < 31 \<longrightarrow> ?grow = (2 ^ length (pools s) \<le> reseedCount s)"
  proof
    assume "length (pools s) < 31"
    then have "js_shl1 (length (pools s)) = int (2 ^ length (pools s))"
      by (simp add: js_shl1_small)
    then show "?grow = (2 ^ length (pools s) \<le> reseedCount s)"
      by (simp only: of_nat_le_iff)
  qed
  have f: "reseedCount s = 0 \<and> length (pools s) = 1 \<longrightarrow>
        (\<forall>rs. length rs < 18 \<longrightarrow>
           length (pools (reseeds rs s)) =
             [1, 1, 1, 2, 2, 3, 3, 3, 3, 4, 4, 4, 4, 4, 4, 4, 4, 5] ! length rs)"
    using single_pool_count [OF I1] by blast
  from a b c d f show ?thesis
    by (simp only: Let_def)
qed

theorem pool_growth_rule_witness:
  "length (poolEntropy seeded_example) = length (pools seeded_example) \<and>
   reseedCount seeded_example = 0 \<and> length (pools seeded_example) = 1 \<and>
   length (pools (reseedFromPools example_env False seeded_example)) = 1 \<and>
   length (pools (reseeds (replicate 16 (example_env, False)) seeded_example)) = 4 \<and>
   length (pools (reseeds (replicate 17 (example_env, False)) seeded_example)) = 5"
proof -
  have I1: "length (poolEntropy seeded_example) = length (pools seeded_example)"
    by (simp add: seeded_example_eq prng_new_def)
  have rc: "reseedCount seeded_example = 0" "length (pools seeded_example) = 1"
    by (simp_all add: seeded_example_eq prng_new_def)
  note T = pool_growth_rule [OF I1, of example_env False]
  from T have "length (pools (reseedFromPools example_env False seeded_example)) = 1"
    by (simp add: Let_def rc js_shl1_def)
  moreover from T rc
  have "length (pools (reseeds (replicate 16 (example_env, False)) seeded_example)) = 4"
    by (simp add: Let_def)
  moreover from T rc
  have "length (pools (reseeds (replicate 17 (example_env, False)) seeded_example)) = 5"
    by (simp add: Let_def)
  ultimately show ?thesis using I1 rc by simp
qed

text \<open>
  Claim C5 as stated fails. After the first reseed of a new generator
  \<open>reseedCount + 1 = 2 = 2^len(pools)\<close>, and the second reseed appends no pool. After
  16 reseeds, each of which drains pool 0, there are 4 pools, not 5.
\<close>

theorem pool_growth_rule_counterexample:
  "reseedCount (reseedFromPools example_env False (prng_new None)) + 1
     \<ge> 2 ^ length (pools (reseedFromPools example_env False (prng_new None))) \<and>
   length (pools (reseedFromPools example_env False
       (reseedFromPools example_env False (prng_new None)))) =
     length (pools (reseedFromPools example_env False (prng_new None))) \<and>
   length (pools (reseeds (replicate 16 (example_env, False)) (prng_new None))) = 4 \<and>
   \<not> 5 \<le> length (pools (reseeds (replicate 16 (example_env, False)) (prng_new None)))"
proof -
  have "length (pools (reseeds (replicate 16 (example_env, False)) (prng_new None))) = 4"
    using single_pool_count [OF new_I1, of None "replicate 16 (example_env, False)"]
    by (simp add: prng_new_def)
  moreover have
    "reseedCount (reseedFromPools example_env False (prng_new None)) + 1
       \<ge> 2 ^ length (pools (reseedFromPools example_env False (prng_new None))) \<and>
     length (pools (reseedFromPools example_env False
       (reseedFromPools example_env False (prng_new None)))) =
     length (pools (reseedFromPools example_env False (prng_new None)))"
    by (simp add: example_eval)
  ultimately show ?thesis by simp
qed

section \<open>\<^verbatim>\<open>randomWords\<close>\<close>

lemma generate_ok:
  assumes "cipher s1 = Some k"
  shows "\<exists>out c k'.
     (case randomWords_loop e n 0 [] s1 of
        (Throw x, s2) \<Rightarrow> (Throw x, s2)
      | (Ok out, s2) \<Rightarrow>
          (case gate e s2 of
             (Throw x, s3) \<Rightarrow> (Throw x, s3)
           | (Ok _, s3) \<Rightarrow> (Ok (take n out), s3))) =
       (Ok out, s1\<lparr>counter := c, key := k', cipher := Some k',
                    gateCalls := gateCalls s1 + 1\<rparr>) \<and>
     length out = n"
proof -
  have "(0::nat) mod 4 = 0" by simp
  from randomWords_loop_ok [OF assms this, where e = e and n = n and out = "[]"]
  obtain out' c where
    loop: "randomWords_loop e n 0 [] s1 = (Ok out', s1\<lparr>counter := c\<rparr>)" and
    len: "n \<le> length out'" by auto
  have ck: "cipher (s1\<lparr>counter := c\<rparr>) = Some k" using assms by simp
  define c' where "c' = inc_counter 0 (inc_counter 0 c)"
  define k' where "k' = block_words (aes_encrypt e k (inc_counter 0 c)) @
      block_words (aes_encrypt e k (inc_counter 0 (inc_counter 0 c)))"
  from gate_Some [OF ck, where e = e]
  have "gate e (s1\<lparr>counter := c\<rparr>) =
       (Ok (), s1\<lparr>counter := c', key := k', cipher := Some k',
                  gateCalls := gateCalls s1 + 1\<rparr>)"
    by (simp add: Let_def c'_def k'_def)
  with loop have "(case randomWords_loop e n 0 [] s1 of
        (Throw x, s2) \<Rightarrow> (Throw x, s2)
      | (Ok out, s2) \<Rightarrow>
          (case gate e s2 of
             (Throw x, s3) \<Rightarrow> (Throw x, s3)
           | (Ok _, s3) \<Rightarrow> (Ok (take n out), s3))) =
       (Ok (take n out'), s1\<lparr>counter := c', key := k', cipher := Some k',
                    gateCalls := gateCalls s1 + 1\<rparr>)"
    by simp
  moreover have "length (take n out') = n" using len by simp
  ultimately show ?thesis by blast
qed

lemma generate_gates:
  "gateCalls (snd (case randomWords_loop e n 0 [] s1 of
        (Throw x, s2) \<Rightarrow> (Throw x, s2)
      | (Ok out, s2) \<Rightarrow>
          (case gate e s2 of
             (Throw x, s3) \<Rightarrow> (Throw x, s3)
           | (Ok _, s3) \<Rightarrow> (Ok (take n out), s3)))) \<le> gateCalls s1 + 1"
proof -
  have "(0::nat) mod 4 = 0" by simp
  from randomWords_loop_no_gate [OF this, where e = e and n = n and out = "[]" and s = s1]
  obtain c where c: "snd (randomWords_loop e n 0 [] s1) = s1\<lparr>counter := c\<rparr>" ..
  obtain r s2 where loop: "randomWords_loop e n 0 [] s1 = (r, s2)"
    by (cases "randomWords_loop e n 0 [] s1")
  with c have s2: "s2 = s1\<lparr>counter := c\<rparr>" by simp
  show ?thesis
  proof (cases r)
    case (Throw x)
    with loop s2 show ?thesis by simp
  next
    case (Ok out)
    from gate_state [where e = e and s = s2] obtain c' k' ci where
      g: "snd (gate e s2) =
            s2\<lparr>gateCalls := gateCalls s2 + 1, counter := c', key := k', cipher := ci\<rparr>"
      by blast
    obtain r' s3 where gate: "gate e s2 = (r', s3)" by (cases "gate e s2")
    with g have "gateCalls s3 = gateCalls s2 + 1" by simp
    with loop Ok gate s2 show ?thesis by (cases r') simp_all
  qed
qed

lemma reseedFromPools_gateCalls: "gateCalls (reseedFromPools e full s) = gateCalls s"
proof -
  from reseedFromPools_frame [where e = e and full = full and s = s] obtain t ps pe pstr st k c where
    "reseedFromPools e full s =
       s\<lparr>nextReseed := t, pools := ps, poolEntropy := pe, poolStrength := pstr,
         strength := st, reseedCount := reseedCount s + 1, key := k, cipher := Some k,
         counter := c\<rparr>" by blast
  then show ?thesis by simp
qed

lemma reseedFromPools_cipher: "\<exists>k. cipher (reseedFromPools e full s) = Some k"
proof -
  from reseedFromPools_frame [where e = e and full = full and s = s] obtain t ps pe pstr st k c where
    "reseedFromPools e full s =
       s\<lparr>nextReseed := t, pools := ps, poolEntropy := pe, poolStrength := pstr,
         strength := st, reseedCount := reseedCount s + 1, key := k, cipher := Some k,
         counter := c\<rparr>" by blast
  then show ?thesis by simp
qed

lemma randomWords_unfold:
  "randomWords e n p s =
     (if isReady e p s = NOT_READY then (Throw NotReady, s)
      else
        (case randomWords_loop e n 0 []
                (if isReady e p s AND REQUIRES_RESEED \<noteq> 0
                 then reseedFromPools e (isReady e p s AND READY = 0) s else s) of
           (Throw x, s2) \<Rightarrow> (Throw x, s2)
         | (Ok out, s2) \<Rightarrow>
             (case gate e s2 of
                (Throw x, s3) \<Rightarrow> (Throw x, s3)
              | (Ok _, s3) \<Rightarrow> (Ok (take n out), s3))))"
  by (simp add: randomWords_def Let_def)

lemma randomWords_full_reseed:
  assumes r: "isReady e p s = REQUIRES_RESEED OR NOT_READY"
  shows "\<exists>out c k. randomWords e n p s =
          (Ok out, (reseedFromPools e True s)\<lparr>counter := c, key := k, cipher := Some k,
                      gateCalls := gateCalls s + 1\<rparr>) \<and>
        length out = n"
proof -
  obtain k0 where k0: "cipher (reseedFromPools e True s) = Some k0"
    using reseedFromPools_cipher by blast
  from generate_ok [OF k0, where e = e and n = n] obtain out c k where
    g: "(case randomWords_loop e n 0 [] (reseedFromPools e True s) of
        (Throw x, s2) \<Rightarrow> (Throw x, s2)
      | (Ok out, s2) \<Rightarrow>
          (case gate e s2 of
             (Throw x, s3) \<Rightarrow> (Throw x, s3)
           | (Ok _, s3) \<Rightarrow> (Ok (take n out), s3))) =
       (Ok out, (reseedFromPools e True s)\<lparr>counter := c, key := k, cipher := Some k,
                    gateCalls := gateCalls (reseedFromPools e True s) + 1\<rparr>)" and
    len: "length out = n" by blast
  have "randomWords e n p s =
          (Ok out, (reseedFromPools e True s)\<lparr>counter := c, key := k, cipher := Some k,
                      gateCalls := gateCalls s + 1\<rparr>)"
    using g r by (simp add: randomWords_unfold readiness_defs reseedFromPools_gateCalls)
  with len show ?thesis by blast
qed

text \<open>
  Claim C1, as the code has it. When \<^verbatim>\<open>isReady(paranoia)\<close> returns plain \<open>NOT_READY\<close>,
  \<^verbatim>\<open>randomWords\<close> throws \<^verbatim>\<open>notReady\<close> and leaves the state as it was. When it returns
  \<open>REQUIRES_RESEED | NOT_READY\<close>, \<^verbatim>\<open>randomWords\<close> does not fail: it reseeds from all
  pools (\<^verbatim>\<open>_reseedFromPools(true)\<close>), generates, gates once and returns \<open>n\<close> words.
\<close>

theorem randomWords_not_ready:
  "(isReady e p s = NOT_READY \<longrightarrow> randomWords e n p s = (Throw NotReady, s)) \<and>
   (isReady e p s = REQUIRES_RESEED OR NOT_READY \<longrightarrow>
      (\<exists>out c k. randomWords e n p s =
          (Ok out, (reseedFromPools e True s)\<lparr>counter := c, key := k, cipher := Some k,
                      gateCalls := gateCalls s + 1\<rparr>) \<and>
        length out = n))"
  using randomWords_full_reseed [of e p s n] by (simp add: randomWords_unfold)

theorem randomWords_not_ready_witness:
  "isReady example_env None (prng_new None) = NOT_READY \<and>
   randomWords example_env 4 None (prng_new None) = (Throw NotReady, prng_new None) \<and>
   isReady example_env None seeded_example = REQUIRES_RESEED OR NOT_READY \<and>
   (\<exists>out c k. randomWords example_env 4 None seeded_example =
        (Ok out, (reseedFromPools example_env True seeded_example)
                   \<lparr>counter := c, key := k, cipher := Some k,
                     gateCalls := gateCalls seeded_example + 1\<rparr>) \<and>
      length out = 4)"
  using randomWords_not_ready [of example_env None "prng_new None" 4]
    randomWords_not_ready [of example_env None seeded_example 4]
    new_example_readiness seeded_example_readiness
  by simp

text \<open>
  Claim C1 as stated fails on a generator whose pools hold 300 bits before its first
  reseed: the readiness is \<open>REQUIRES_RESEED | NOT_READY\<close>, and \<^verbatim>\<open>randomWords(4)\<close>
  returns four words.
\<close>

theorem randomWords_reseeds_when_not_ready_counterexample:
  "isReady example_env None seeded_example = REQUIRES_RESEED OR NOT_READY \<and>
   fst (randomWords example_env 4 None seeded_example) = Ok [8, 2, 2, 3]"
proof
  show "isReady example_env None seeded_example = REQUIRES_RESEED OR NOT_READY"
    by (rule seeded_example_readiness)
  have "randomWords example_env 4 None seeded_example =
     (case randomWords_loop example_env 4 0 []
             (reseedFromPools example_env True seeded_example) of
        (Throw x, s2) \<Rightarrow> (Throw x, s2)
      | (Ok out, s2) \<Rightarrow>
          (case gate example_env s2 of
             (Throw x, s3) \<Rightarrow> (Throw x, s3)
           | (Ok _, s3) \<Rightarrow> (Ok (take 4 out), s3)))"
    by (simp add: randomWords_def seeded_example_readiness readiness_defs)
  then show "fst (randomWords example_env 4 None seeded_example) = Ok [8, 2, 2, 3]"
    by (simp add: example_eval)
qed

text \<open>
  Claim C2 does not hold of the code. The loop index \<open>i\<close> runs over the multiples of 4,
  so \<open>(i+1) mod 65536\<close> is never 0 and the loop never gates: from its start to its end
  the loop changes nothing but the counter, whatever the number of words. A call of
  \<^verbatim>\<open>randomWords\<close> calls \<^verbatim>\<open>_gate\<close> at most once, after the loop; for 65540 words on a
  seeded generator it returns the 65540 words and has gated exactly once.
\<close>

theorem randomWords_gates_once:
  "(\<exists>c. snd (randomWords_loop e n 0 [] s) = s\<lparr>counter := c\<rparr>) \<and>
   gateCalls (snd (randomWords_loop e n 0 [] s)) = gateCalls s \<and>
   gateCalls (snd (randomWords e n p s)) \<le> gateCalls s + 1 \<and>
   MAX_WORDS_PER_BURST < 65540 \<and>
   (\<exists>out. fst (randomWords example_env 65540 None seeded_example) = Ok out \<and>
      length out = 65540) \<and>
   gateCalls (snd (randomWords example_env 65540 None seeded_example)) =
     gateCalls seeded_example + 1"
proof (intro conjI)
  have z: "(0::nat) mod 4 = 0" by simp
  from randomWords_loop_no_gate [OF z, where e = e and n = n and out = "[]" and s = s]
  show ex: "\<exists>c. snd (randomWords_loop e n 0 [] s) = s\<lparr>counter := c\<rparr>" .
  then obtain c where "snd (randomWords_loop e n 0 [] s) = s\<lparr>counter := c\<rparr>" ..
  then show "gateCalls (snd (randomWords_loop e n 0 [] s)) = gateCalls s" by simp
  show "gateCalls (snd (randomWords e n p s)) \<le> gateCalls s + 1"
  proof (cases "isReady e p s = NOT_READY")
    case True
    then show ?thesis by (simp add: randomWords_unfold)
  next
    case False
    let ?s1 = "if isReady e p s AND REQUIRES_RESEED \<noteq> 0
                 then reseedFromPools e (isReady e p s AND READY = 0) s else s"
    have "gateCalls ?s1 = gateCalls s" by (simp add: reseedFromPools_gateCalls)
    with generate_gates [where e = e and n = n and ?s1.0 = ?s1] False show ?thesis
      by (simp only: randomWords_unfold if_False)
  qed
  show "MAX_WORDS_PER_BURST < 65540" by (simp add: MAX_WORDS_PER_BURST_def)
  from randomWords_full_reseed [OF seeded_example_readiness, of 65540]
  obtain out c k where
    rw: "randomWords example_env 65540 None seeded_example =
          (Ok out, (reseedFromPools example_env True seeded_example)
                     \<lparr>counter := c, key := k, cipher := Some k,
                       gateCalls := gateCalls seeded_example + 1\<rparr>)" and
    len: "length out = 65540" by blast
  from rw len show "\<exists>out. fst (randomWords example_env 65540 None seeded_example) = Ok out \<and>
      length out = 65540" by simp
  from rw show "gateCalls (snd (randomWords example_env 65540 None seeded_example)) =
     gateCalls seeded_example + 1" by simp
qed

section \<open>Adding entropy\<close>

lemma array_numbers_None:
  "(array_numbers xs = None) =
     list_ex (\<lambda>x. case x of JNumber v \<Rightarrow> False | _ \<Rightarrow> True) xs"
  by (induction xs rule: array_numbers.induct) auto











text \<open>
  With a tag inherited from \<^verbatim>\<open>Object.prototype\<close> and no entry of its own, supported
  data fares no better: there is no pool under the index read, and the call throws a
  \<^verbatim>\<open>TypeError\<close>.
\<close>

lemma addEntropy_inherited_tag:
  assumes "\<not> unsupported data"
    and "object_prototype e tag = InheritedValue" and "tag \<noteq> []"
    and "robins s tag = None" and "collectorIds s tag = None"
  shows "addEntropy e data est (Some tag) s =
           (Throw TypeError, s\<lparr>robins := (robins s)(tag \<mapsto> NotANumber)\<rparr>)"
  using assms
  by (cases data)
    (simp_all add: addEntropy_def absorb_def absorb_words_def Let_def read_robin_def
      read_id_def write_robin_def next_robin_def pool_index_def
      array_numbers_None split: option.splits)

section \<open>The pool strength\<close>

subsection \<open>Sums that are exact\<close>







subsection \<open>What each call does to the counts\<close>











subsection \<open>A generator with two pools\<close>




lemma round53_tie: "round53 9007199254740993 = 9007199254740992"
  by (simp add: round53_def Let_def double_ulp.simps [of 1] double_ulp.simps [of 2])




end
